theory Spec2Isabelle
  imports Main
begin

section \<open>Python values and string primitives\<close>

text \<open>
  The module \<^verbatim>\<open>zim/formats/__init__.py\<close> is Python 2.  Strings are modelled as
  \<^typ>\<open>string\<close> (byte strings), \<^verbatim>\<open>None\<close> as \<^const>\<open>None\<close>, and every exception the
  code can raise as a value of \<open>pyerr\<close>.
\<close>

datatype pyerr = AssertionError | AttributeError | IndexError | KeyError | ValueError

text \<open>Attribute values: the code stores both strings and integers in \<^verbatim>\<open>attrib\<close>.\<close>

datatype pyval = VStr string | VInt int

definition nl :: char where
  "nl = CHR 0x0A"

text \<open>\<^verbatim>\<open>string.whitespace\<close> of Python 2: space, tab, newline, return, VT, FF.\<close>

definition is_ws :: "char \<Rightarrow> bool" where
  "is_ws c = (c = CHR '' '' \<or> c = CHR 0x09 \<or> c = CHR 0x0A \<or> c = CHR 0x0D
              \<or> c = CHR 0x0B \<or> c = CHR 0x0C)"

text \<open>\<^verbatim>\<open>s.isspace()\<close>: non-empty and only whitespace.\<close>

definition isspace :: "string \<Rightarrow> bool" where
  "isspace s = (s \<noteq> [] \<and> list_all is_ws s)"

text \<open>\<^verbatim>\<open>s.startswith(p)\<close>.\<close>

definition startswith :: "string \<Rightarrow> string \<Rightarrow> bool" where
  "startswith s p = (take (length p) s = p)"

text \<open>\<^verbatim>\<open>s.index(sub)\<close>: the lowest index at which \<open>sub\<close> occurs in \<open>s\<close>;
  \<^const>\<open>None\<close> stands for the \<^verbatim>\<open>ValueError\<close>.\<close>

fun str_index :: "string \<Rightarrow> string \<Rightarrow> nat option" where
  "str_index [] sub = (if sub = [] then Some 0 else None)"
| "str_index (c # s) sub =
     (if startswith (c # s) sub then Some 0 else map_option Suc (str_index s sub))"

text \<open>
  \<^verbatim>\<open>int(s)\<close> on a string, for ASCII decimal literals: whitespace around the literal is
  dropped, one sign is allowed, and at least one digit must follow.
  \<^const>\<open>None\<close> stands for the \<^verbatim>\<open>ValueError\<close>.
\<close>

definition is_digit :: "char \<Rightarrow> bool" where
  "is_digit c = (c \<in> set ''0123456789'')"

definition digit_val :: "char \<Rightarrow> nat" where
  "digit_val c = of_char c - 48"

definition digits_val :: "string \<Rightarrow> nat" where
  "digits_val ds = foldl (\<lambda>acc c. 10 * acc + digit_val c) 0 ds"

definition strip_ws :: "string \<Rightarrow> string" where
  "strip_ws s = rev (dropWhile is_ws (rev (dropWhile is_ws s)))"

definition int_of_digits :: "string \<Rightarrow> int option" where
  "int_of_digits ds =
     (if ds \<noteq> [] \<and> list_all is_digit ds then Some (int (digits_val ds)) else None)"

definition py_int :: "string \<Rightarrow> int option" where
  "py_int s =
     (case strip_ws s of
        [] \<Rightarrow> None
      | c # r \<Rightarrow>
          if c = CHR ''-'' then map_option uminus (int_of_digits r)
          else if c = CHR ''+'' then int_of_digits r
          else int_of_digits (c # r))"

text \<open>\<^verbatim>\<open>str(i)\<close> on an integer: its decimal numeral.\<close>

definition digit_char :: "nat \<Rightarrow> char" where
  "digit_char d = ''0123456789'' ! d"

function nat_str :: "nat \<Rightarrow> string" where
  "nat_str n = (if n < 10 then [digit_char n] else nat_str (n div 10) @ [digit_char (n mod 10)])"
  by pat_completeness auto
termination
  by (relation "measure id") auto

declare nat_str.simps [simp del]

definition py_str :: "int \<Rightarrow> string" where
  "py_str i = (if i < 0 then CHR ''-'' # nat_str (nat (- i)) else nat_str (nat i))"

section \<open>List markers: \<^verbatim>\<open>increase_list_iter\<close>\<close>

text \<open>\<^verbatim>\<open>string.letters\<close> of Python 2 in the default locale:
  \<^verbatim>\<open>lowercase + uppercase\<close>.\<close>

definition letters :: string where
  "letters = ''abcdefghijklmnopqrstuvwxyzABCDEFGHIJKLMNOPQRSTUVWXYZ''"

text \<open>
  \<^verbatim>\<open>
  try:
      i = int(listiter); return str(i + 1)
  except ValueError:
      try:
          i = string.letters.index(listiter); return string.letters[i+1]
      except ValueError: return None
      except IndexError: return string.letters[0]
  \<close>
\<close>

definition increase_list_iter :: "string \<Rightarrow> string option" where
  "increase_list_iter listiter =
     (case py_int listiter of
        Some i \<Rightarrow> Some (py_str (i + 1))
      | None \<Rightarrow>
          (case str_index letters listiter of
             None \<Rightarrow> None
           | Some i \<Rightarrow>
               if i + 1 < length letters then Some [letters ! (i + 1)]
               else Some [letters ! 0]))"

section \<open>Parse trees as values\<close>

text \<open>
  An ElementTree element: tag, attribute dictionary, \<^verbatim>\<open>text\<close>, \<^verbatim>\<open>tail\<close> and the list of
  children.  Operations that only walk a tree or change it at fixed places are modelled
  on this value type; the operations whose effect depends on object identity use the
  store of the next section.
\<close>

type_synonym attrib = "string \<rightharpoonup> pyval"

datatype element =
  Element (e_tag: string) (e_attrib: attrib) (e_text: "string option")
          (e_tail: "string option") (e_children: "element list")

text \<open>Truth value of an optional string: \<^verbatim>\<open>None\<close> and \<^verbatim>\<open>''\<close> are false.\<close>

definition truthy :: "string option \<Rightarrow> bool" where
  "truthy t = (case t of None \<Rightarrow> False | Some s \<Rightarrow> s \<noteq> [])"

text \<open>\<^verbatim>\<open>t and not t.isspace()\<close>\<close>

definition has_content :: "string option \<Rightarrow> bool" where
  "has_content t = (case t of None \<Rightarrow> False | Some s \<Rightarrow> s \<noteq> [] \<and> \<not> isspace s)"

text \<open>\<^verbatim>\<open>int(element.attrib[key])\<close>: \<^verbatim>\<open>KeyError\<close> for a missing key,
  \<^verbatim>\<open>ValueError\<close> for a string that is no integer literal.\<close>

definition attr_int :: "attrib \<Rightarrow> string \<Rightarrow> pyerr + int" where
  "attr_int a k =
     (case a k of
        None \<Rightarrow> Inl KeyError
      | Some (VInt i) \<Rightarrow> Inr i
      | Some (VStr s) \<Rightarrow> (case py_int s of None \<Rightarrow> Inl ValueError | Some i \<Rightarrow> Inr i))"

subsection \<open>\<^verbatim>\<open>ParseTree.cleanup_headings\<close>\<close>

text \<open>
  \<^verbatim>\<open>
  path = []
  for heading in self.getiterator('h'):
      level = int(heading.attrib['level'])
      while path and path[-1][0] >= level:
          path.pop()
      if not path: newlevel = offset+1
      else:        newlevel = path[-1][1] + 1
      if newlevel > max: newlevel = max
      heading.attrib['level'] = newlevel
      path.append((level, newlevel))
  \<close>
  The stack \<^verbatim>\<open>path\<close> is kept with its top as the head of the list.
\<close>

type_synonym path = "(int \<times> int) list"

fun pop_path :: "int \<Rightarrow> path \<Rightarrow> path" where
  "pop_path level [] = []"
| "pop_path level (p # path) = (if fst p \<ge> level then pop_path level path else p # path)"

definition new_level :: "int \<Rightarrow> int \<Rightarrow> path \<Rightarrow> int" where
  "new_level offset mx path =
     (let newlevel = (case path of [] \<Rightarrow> offset + 1 | p # _ \<Rightarrow> snd p + 1)
      in if newlevel > mx then mx else newlevel)"

text \<open>The loop body for one heading whose level attribute reads \<open>level\<close>:
  the new level and the new stack.\<close>

definition heading_step :: "int \<Rightarrow> int \<Rightarrow> path \<Rightarrow> int \<Rightarrow> int \<times> path" where
  "heading_step offset mx path level =
     (let path' = pop_path level path;
          newlevel = new_level offset mx path'
      in (newlevel, (level, newlevel) # path'))"

text \<open>
  \<^verbatim>\<open>getiterator('h')\<close> yields the element itself when it is an \<^verbatim>\<open>h\<close> and then its
  descendants, in document order; the loop body runs on each element as it is yielded.
\<close>

fun cleanup_elem :: "int \<Rightarrow> int \<Rightarrow> path \<Rightarrow> element \<Rightarrow> pyerr + (path \<times> element)"
  and cleanup_elems :: "int \<Rightarrow> int \<Rightarrow> path \<Rightarrow> element list \<Rightarrow> pyerr + (path \<times> element list)"
where
  "cleanup_elem offset mx path (Element tg at tx ta cs) =
     (if tg = ''h'' then
        (case attr_int at ''level'' of
           Inl e \<Rightarrow> Inl e
         | Inr level \<Rightarrow>
             (let (newlevel, path') = heading_step offset mx path level
              in case cleanup_elems offset mx path' cs of
                   Inl e \<Rightarrow> Inl e
                 | Inr (path'', cs') \<Rightarrow>
                     Inr (path'', Element tg (at(''level'' \<mapsto> VInt newlevel)) tx ta cs')))
      else
        (case cleanup_elems offset mx path cs of
           Inl e \<Rightarrow> Inl e
         | Inr (path'', cs') \<Rightarrow> Inr (path'', Element tg at tx ta cs')))"
| "cleanup_elems offset mx path [] = Inr (path, [])"
| "cleanup_elems offset mx path (c # cs) =
     (case cleanup_elem offset mx path c of
        Inl e \<Rightarrow> Inl e
      | Inr (path', c') \<Rightarrow>
          (case cleanup_elems offset mx path' cs of
             Inl e \<Rightarrow> Inl e
           | Inr (path'', cs') \<Rightarrow> Inr (path'', c' # cs')))"

definition cleanup_headings :: "int \<Rightarrow> int \<Rightarrow> element \<Rightarrow> pyerr + element" where
  "cleanup_headings offset mx root =
     (case cleanup_elem offset mx [] root of Inl e \<Rightarrow> Inl e | Inr (_, root') \<Rightarrow> Inr root')"

text \<open>The headings of a tree in document order, and their level attributes.\<close>

fun headings :: "element \<Rightarrow> element list"
  and headings_list :: "element list \<Rightarrow> element list"
where
  "headings (Element tg at tx ta cs) =
     (if tg = ''h'' then [Element tg at tx ta cs] else []) @ headings_list cs"
| "headings_list [] = []"
| "headings_list (c # cs) = headings c @ headings_list cs"

definition heading_levels :: "element \<Rightarrow> (pyerr + int) list" where
  "heading_levels t = map (\<lambda>h. attr_int (e_attrib h) ''level'') (headings t)"

definition levels_list :: "element list \<Rightarrow> (pyerr + int) list" where
  "levels_list cs = map (\<lambda>h. attr_int (e_attrib h) ''level'') (headings_list cs)"

text \<open>
  The renumbering in the words of its description: every heading gets one more than the
  level assigned to its nearest enclosing heading, that is the nearest earlier heading
  whose original level is smaller, or \<open>offset + 1\<close> when there is none, clamped to
  \<open>mx\<close>.  \<open>hist\<close> lists all earlier headings, nearest first, as pairs of original and
  assigned level.
\<close>

fun nearest_levels :: "int \<Rightarrow> int \<Rightarrow> (int \<times> int) list \<Rightarrow> int list \<Rightarrow> int list" where
  "nearest_levels offset mx hist [] = []"
| "nearest_levels offset mx hist (l # ls) =
     (let n = min mx (case find (\<lambda>p. fst p < l) hist of
                        None \<Rightarrow> offset + 1
                      | Some p \<Rightarrow> snd p + 1)
      in n # nearest_levels offset mx ((l, n) # hist) ls)"

text \<open>The same without the clamp: exactly one more than the enclosing heading.\<close>

fun nested_levels :: "int \<Rightarrow> (int \<times> int) list \<Rightarrow> int list \<Rightarrow> int list" where
  "nested_levels offset hist [] = []"
| "nested_levels offset hist (l # ls) =
     (let n = (case find (\<lambda>p. fst p < l) hist of
                 None \<Rightarrow> offset + 1
               | Some p \<Rightarrow> snd p + 1)
      in n # nested_levels offset ((l, n) # hist) ls)"

subsection \<open>\<^verbatim>\<open>ParseTree.pop_heading\<close>\<close>

text \<open>
  The method returns a pair, or, when it falls off its last \<^verbatim>\<open>if\<close>, the bare
  \<^verbatim>\<open>None\<close> of a Python function without \<^verbatim>\<open>return\<close>.
\<close>

datatype pop_result = RetNone | RetPair "string option" "int option"

text \<open>
  \<^verbatim>\<open>
  root = self.getroot(); children = root.getchildren()
  if root.text and not root.text.isspace(): return None, None
  if children:
      first = children[0]
      if first.tag == 'h':
          mylevel = int(first.attrib['level'])
          if level == -1 or mylevel <= level:
              root.remove(first)
              if first.tail and not first.tail.isspace():
                  root.text = first.tail
              return first.text, mylevel
          else: return None, None
      else: return None, None
  \<close>
\<close>

definition pop_heading :: "int \<Rightarrow> element \<Rightarrow> pyerr + (pop_result \<times> element)" where
  "pop_heading level root =
     (if has_content (e_text root) then Inr (RetPair None None, root)
      else
        (case e_children root of
           [] \<Rightarrow> Inr (RetNone, root)
         | first # rest \<Rightarrow>
             if e_tag first = ''h'' then
               (case attr_int (e_attrib first) ''level'' of
                  Inl e \<Rightarrow> Inl e
                | Inr mylevel \<Rightarrow>
                    if level = - 1 \<or> mylevel \<le> level then
                      Inr (RetPair (e_text first) (Some mylevel),
                           Element (e_tag root) (e_attrib root)
                             (if has_content (e_tail first) then e_tail first else e_text root)
                             (e_tail root) rest)
                    else Inr (RetPair None None, root))
             else Inr (RetPair None None, root)))"

text \<open>The loop of \<^verbatim>\<open>cleanup_headings\<close> on the list of original levels alone:
  the assigned levels and the final stack.\<close>

fun renumber :: "int \<Rightarrow> int \<Rightarrow> path \<Rightarrow> int list \<Rightarrow> int list \<times> path" where
  "renumber offset mx path [] = ([], path)"
| "renumber offset mx path (l # ls) =
     (let (n, path') = heading_step offset mx path l;
          (ns, path'') = renumber offset mx path' ls
      in (n # ns, path''))"

text \<open>The levels a tree carries after \<^verbatim>\<open>cleanup_headings\<close>.\<close>

definition assigned_levels :: "int \<Rightarrow> int \<Rightarrow> element \<Rightarrow> pyerr + (pyerr + int) list" where
  "assigned_levels offset mx t =
     (case cleanup_headings offset mx t of Inl e \<Rightarrow> Inl e | Inr t' \<Rightarrow> Inr (heading_levels t'))"

text \<open>Test trees: a page of headings with the given level attributes.\<close>

definition heading_elem :: "pyval \<Rightarrow> string \<Rightarrow> element" where
  "heading_elem l s = Element ''h'' [''level'' \<mapsto> l] (Some s) (Some [nl]) []"

definition page_of :: "element list \<Rightarrow> element" where
  "page_of cs = Element ''zim-tree'' Map.empty None None cs"

definition seven_headings :: element where
  "seven_headings = page_of (map (\<lambda>l. heading_elem (VInt l) ''T'') [1, 2, 3, 4, 5, 6, 7])"

definition gap_headings :: element where
  "gap_headings = page_of (map (\<lambda>l. heading_elem (VInt l) ''T'') [2, 5, 3, 6, 1, 4])"

definition para_elem :: "string \<Rightarrow> element" where
  "para_elem s = Element ''p'' Map.empty (Some s) None []"

section \<open>Visiting a tree\<close>

text \<open>
  What a visitor callback can raise: the two control signals and ordinary errors.
  A callback works on the visitor's own state; it returns the state it leaves behind
  and the exception it raised, if any.
\<close>

datatype exc = VisitorStop | VisitorSkip | Error pyerr

type_synonym 's callback = "'s \<Rightarrow> 's \<times> exc option"

record 's visitor =
  v_start :: "string \<Rightarrow> attrib \<Rightarrow> 's callback"
  v_text :: "string \<Rightarrow> 's callback"
  v_end :: "string \<Rightarrow> 's callback"
  v_append :: "string \<Rightarrow> attrib \<Rightarrow> string option \<Rightarrow> 's callback"

text \<open>
  \<^verbatim>\<open>
  def _visit(self, visitor, node):
      try:
          if len(node):
              visitor.start(node.tag, node.attrib)
              if node.text: visitor.text(node.text)
              for child in node:
                  self._visit(visitor, child)
                  if child.tail: visitor.text(child.tail)
              visitor.end(node.tag)
          else:
              visitor.append(node.tag, node.attrib, node.text)
      except VisitorSkip:
          pass
  \<close>
\<close>

definition opt_text :: "'s visitor \<Rightarrow> string option \<Rightarrow> 's callback" where
  "opt_text v t s = (case t of None \<Rightarrow> (s, None) | Some x \<Rightarrow> if x = [] then (s, None) else v_text v x s)"

definition catch_skip :: "'s \<times> exc option \<Rightarrow> 's \<times> exc option" where
  "catch_skip r = (case r of (s, Some VisitorSkip) \<Rightarrow> (s, None) | _ \<Rightarrow> r)"

fun visit_node :: "'s visitor \<Rightarrow> element \<Rightarrow> 's callback"
  and visit_children :: "'s visitor \<Rightarrow> element list \<Rightarrow> 's callback"
where
  "visit_node v (Element tg at tx ta cs) s =
     catch_skip
       (if cs \<noteq> [] then
          (case v_start v tg at s of
             (s1, Some e) \<Rightarrow> (s1, Some e)
           | (s1, None) \<Rightarrow>
               (case opt_text v tx s1 of
                  (s2, Some e) \<Rightarrow> (s2, Some e)
                | (s2, None) \<Rightarrow>
                    (case visit_children v cs s2 of
                       (s3, Some e) \<Rightarrow> (s3, Some e)
                     | (s3, None) \<Rightarrow> v_end v tg s3)))
        else v_append v tg at tx s)"
| "visit_children v [] s = (s, None)"
| "visit_children v (c # cs) s =
     (case visit_node v c s of
        (s1, Some e) \<Rightarrow> (s1, Some e)
      | (s1, None) \<Rightarrow>
          (case opt_text v (e_tail c) s1 of
             (s2, Some e) \<Rightarrow> (s2, Some e)
           | (s2, None) \<Rightarrow> visit_children v cs s2))"

text \<open>
  \<^verbatim>\<open>
  def visit(self, visitor):
      try: self._visit(visitor, self.getroot())
      except VisitorStop: pass
  \<close>
\<close>

definition visit :: "'s visitor \<Rightarrow> element \<Rightarrow> 's callback" where
  "visit v root s =
     (case visit_node v root s of (s', Some VisitorStop) \<Rightarrow> (s', None) | r \<Rightarrow> r)"

section \<open>The dumper base class\<close>

text \<open>
  A frame of \<^verbatim>\<open>_context\<close> is a triple of tag, attributes and output strings.  The stack
  is kept with its top as the head of the list; its bottom frame holds the list
  \<^verbatim>\<open>self._text\<close>.  What a subclass supplies is a parameter: the table \<^verbatim>\<open>TAGS\<close>, the
  methods \<^verbatim>\<open>dump_<tag>\<close> (absent ones are \<^const>\<open>None\<close>) and \<^verbatim>\<open>encode_text\<close>.
\<close>

type_synonym frame = "string option \<times> attrib option \<times> string list"

record dumper =
  ctx :: "frame list"

record dumper_class =
  TAGS :: "string \<rightharpoonup> string \<times> string"
  dump_method :: "string \<rightharpoonup> (string \<Rightarrow> attrib option \<Rightarrow> string list option \<Rightarrow> pyerr + string list option)"
  encode_text :: "string \<Rightarrow> string"

definition FORMATTEDTEXT :: string where
  "FORMATTEDTEXT = ''zim-tree''"

text \<open>\<^verbatim>\<open>self._context[-1][-1].extend(strings)\<close>; no frame is an \<^verbatim>\<open>IndexError\<close>.\<close>

definition extend_top :: "string list \<Rightarrow> 'a dumper_scheme callback" where
  "extend_top strings d =
     (case ctx d of
        [] \<Rightarrow> (d, Some (Error IndexError))
      | (tg, at, out) # fs \<Rightarrow> (d\<lparr>ctx := (tg, at, out @ strings) # fs\<rparr>, None))"

definition extend_opt :: "string list option \<Rightarrow> 'a dumper_scheme callback" where
  "extend_opt strings d = (case strings of None \<Rightarrow> (d, None) | Some ss \<Rightarrow> extend_top ss d)"

text \<open>
  \<^verbatim>\<open>
  def start(self, tag, attrib=None):
      if attrib: attrib = attrib.copy()
      self._context.append((tag, attrib, []))
  def text(self, text):
      assert not text is None
      text = self.encode_text(text)
      self._context[-1][-1].append(text)
  \<close>
\<close>

definition d_start :: "string \<Rightarrow> attrib \<Rightarrow> 'a dumper_scheme callback" where
  "d_start tag at d = (d\<lparr>ctx := (Some tag, Some at, []) # ctx d\<rparr>, None)"

definition d_text :: "dumper_class \<Rightarrow> string \<Rightarrow> 'a dumper_scheme callback" where
  "d_text cls t d = extend_top [encode_text cls t] d"

text \<open>
  \<^verbatim>\<open>
  def end(self, tag):
      assert tag and self._context[-1][0] == tag, 'Unmatched tag: %s' % tag
      _, attrib, strings = self._context.pop()
      if tag in self.TAGS:
          assert strings, 'Can not append empty %s element' % tag
          start, end = self.TAGS[tag]
          strings.insert(0, start); strings.append(end)
      elif tag == FORMATTEDTEXT: pass
      else:
          try: method = getattr(self, 'dump_'+tag)
          except AttributeError: raise AssertionError, 'BUG: Unknown tag: %s' % tag
          strings = method(tag, attrib, strings)
      if strings is not None:
          self._context[-1][-1].extend(strings)
  \<close>
\<close>

definition d_end :: "dumper_class \<Rightarrow> string \<Rightarrow> 'a dumper_scheme callback" where
  "d_end cls tag d =
     (if tag = [] then (d, Some (Error AssertionError))
      else
        (case ctx d of
           [] \<Rightarrow> (d, Some (Error IndexError))
         | (tg, at, strings) # fs \<Rightarrow>
             if tg \<noteq> Some tag then (d, Some (Error AssertionError))
             else
               (let d' = d\<lparr>ctx := fs\<rparr> in
                case TAGS cls tag of
                  Some (s, e) \<Rightarrow>
                    if strings = [] then (d', Some (Error AssertionError))
                    else extend_top (s # strings @ [e]) d'
                | None \<Rightarrow>
                    if tag = FORMATTEDTEXT then extend_top strings d'
                    else
                      (case dump_method cls tag of
                         None \<Rightarrow> (d', Some (Error AssertionError))
                       | Some method \<Rightarrow>
                           (case method tag at (Some strings) of
                              Inl err \<Rightarrow> (d', Some (Error err))
                            | Inr strings' \<Rightarrow> extend_opt strings' d')))))"

text \<open>
  \<^verbatim>\<open>
  def append(self, tag, attrib=None, text=None):
      strings = None
      if tag in self.TAGS:
          assert text is not None, 'Can not append empty %s element' % tag
          start, end = self.TAGS[tag]
          text = self.encode_text(text)
          strings = [start, text, end]
      elif tag == FORMATTEDTEXT:
          if text is not None: strings = [self.encode_text(text)]
      else:
          if attrib: attrib = attrib.copy()
          try: method = getattr(self, 'dump_'+tag)
          except AttributeError: raise AssertionError, 'BUG: Unknown tag: %s' % tag
          if text is None: strings = method(tag, attrib, None)
          else: strings = method(tag, attrib, [self.encode_text(text)])
      if strings is not None:
          self._context[-1][-1].extend(strings)
  \<close>
\<close>

definition d_append :: "dumper_class \<Rightarrow> string \<Rightarrow> attrib \<Rightarrow> string option \<Rightarrow> 'a dumper_scheme callback" where
  "d_append cls tag at t d =
     (case TAGS cls tag of
        Some (s, e) \<Rightarrow>
          (case t of
             None \<Rightarrow> (d, Some (Error AssertionError))
           | Some x \<Rightarrow> extend_top [s, encode_text cls x, e] d)
      | None \<Rightarrow>
          if tag = FORMATTEDTEXT then
            extend_opt (map_option (\<lambda>x. [encode_text cls x]) t) d
          else
            (case dump_method cls tag of
               None \<Rightarrow> (d, Some (Error AssertionError))
             | Some method \<Rightarrow>
                 (case method tag (Some at) (map_option (\<lambda>x. [encode_text cls x]) t) of
                    Inl err \<Rightarrow> (d, Some (Error err))
                  | Inr strings \<Rightarrow> extend_opt strings d)))"

text \<open>The methods of \<^verbatim>\<open>DumperClass\<close> as a visitor.\<close>

definition dumper_visitor :: "dumper_class \<Rightarrow> 'a dumper_scheme visitor" where
  "dumper_visitor cls =
     \<lparr>v_start = d_start, v_text = d_text cls, v_end = d_end cls, v_append = d_append cls\<rparr>"

text \<open>
  \<^verbatim>\<open>u''.join(self._text).splitlines(1)\<close>: the lines with their line ends, for the ASCII
  line boundaries of a unicode string (LF, CR, CR LF, VT, FF, FS, GS, RS).
\<close>

definition is_linebreak :: "char \<Rightarrow> bool" where
  "is_linebreak c = (c \<in> set [CHR 0x0A, CHR 0x0D, CHR 0x0B, CHR 0x0C, CHR 0x1C, CHR 0x1D, CHR 0x1E])"

fun splitlines_keep :: "string \<Rightarrow> string \<Rightarrow> string list" where
  "splitlines_keep cur [] = (if cur = [] then [] else [cur])"
| "splitlines_keep cur [c] = [cur @ [c]]"
| "splitlines_keep cur (c # d # s) =
     (if c = CHR 0x0D \<and> d = CHR 0x0A then (cur @ [c, d]) # splitlines_keep [] s
      else if is_linebreak c then (cur @ [c]) # splitlines_keep [] (d # s)
      else splitlines_keep (cur @ [c]) (d # s))"

text \<open>\<^verbatim>\<open>self._text\<close> is the list of the bottom frame.\<close>

definition get_lines :: "'a dumper_scheme \<Rightarrow> string list" where
  "get_lines d =
     (case ctx d of [] \<Rightarrow> [] | fs \<Rightarrow> splitlines_keep [] (concat (snd (snd (last fs)))))"

text \<open>
  \<^verbatim>\<open>
  def dump(self, tree):
      self._text = []
      self._context = [(None, None, self._text)]
      tree.visit(self)
      assert len(self._context) == 1, 'Unclosed tags on tree'
      return self.get_lines()
  \<close>
  The visitor passed to \<^verbatim>\<open>tree.visit\<close> is \<^verbatim>\<open>self\<close>: the method table \<open>v\<close> of the
  dumper's own class.
\<close>

definition dump :: "'a dumper_scheme visitor \<Rightarrow> 'a dumper_scheme \<Rightarrow> element \<Rightarrow> pyerr + string list" where
  "dump v d tree =
     (case visit v tree (d\<lparr>ctx := [(None, None, [])]\<rparr>) of
        (d', Some (Error err)) \<Rightarrow> Inl err
      | (d', _) \<Rightarrow>
          if length (ctx d') \<noteq> 1 then Inl AssertionError else Inr (get_lines d'))"

text \<open>
  A dumper subclass that raises \<^verbatim>\<open>VisitorStop\<close> when it is handed its \<open>n\<close>-th node:
  \<^verbatim>\<open>start\<close> and \<^verbatim>\<open>append\<close> count the nodes in the field \<open>seen\<close> and otherwise do what
  the base class does.
\<close>

record stopping_dumper = dumper +
  seen :: nat

definition stopping_visitor :: "nat \<Rightarrow> dumper_class \<Rightarrow> stopping_dumper visitor" where
  "stopping_visitor n cls =
     \<lparr>v_start = (\<lambda>tag at d.
         if seen d + 1 = n then (d\<lparr>seen := seen d + 1\<rparr>, Some VisitorStop)
         else d_start tag at (d\<lparr>seen := seen d + 1\<rparr>)),
      v_text = d_text cls,
      v_end = d_end cls,
      v_append = (\<lambda>tag at t d.
         if seen d + 1 = n then (d\<lparr>seen := seen d + 1\<rparr>, Some VisitorStop)
         else d_append cls tag at t (d\<lparr>seen := seen d + 1\<rparr>))\<rparr>"

text \<open>A plain-text dumper class: paragraphs are written as they are.\<close>

definition text_class :: dumper_class where
  "text_class =
     \<lparr>TAGS = Map.empty,
      dump_method = [''p'' \<mapsto> (\<lambda>tag at strings. Inr strings)],
      encode_text = (\<lambda>t. t)\<rparr>"

definition two_paras :: element where
  "two_paras = page_of [para_elem (''a'' @ [nl]), para_elem (''b'' @ [nl])]"

section \<open>Elements as objects\<close>

text \<open>
  Where the code keeps references to elements and changes them in place, an element is
  an object in a store: a reference is a number, the store maps references to the
  fields of the object, and the children of an element are references.
\<close>

record node =
  n_tag :: string
  n_attrib :: attrib
  n_text :: "string option"
  n_tail :: "string option"
  n_children :: "nat list"

type_synonym store = "nat \<Rightarrow> node"

text \<open>\<^verbatim>\<open>Element(tag, attrib)\<close>: a new element has no text, no tail and no children.\<close>

definition new_node :: "string \<Rightarrow> attrib \<Rightarrow> node" where
  "new_node tag at = \<lparr>n_tag = tag, n_attrib = at, n_text = None, n_tail = None, n_children = []\<rparr>"

text \<open>\<^verbatim>\<open>parent.append(child)\<close>\<close>

definition append_child :: "nat \<Rightarrow> nat \<Rightarrow> store \<Rightarrow> store" where
  "append_child parent child h = h(parent := (h parent)\<lparr>n_children := n_children (h parent) @ [child]\<rparr>)"

text \<open>\<^verbatim>\<open>s or ''\<close>\<close>

definition or_empty :: "string option \<Rightarrow> string" where
  "or_empty t = (case t of None \<Rightarrow> [] | Some s \<Rightarrow> s)"

text \<open>The value of the tree below a reference, when it is read within \<open>n\<close> levels.\<close>

fun tree_of :: "nat \<Rightarrow> store \<Rightarrow> nat \<Rightarrow> element option" where
  "tree_of 0 h a = None"
| "tree_of (Suc n) h a =
     (let cs = map (tree_of n h) (n_children (h a))
      in if list_all (\<lambda>c. c \<noteq> None) cs
         then Some (Element (n_tag (h a)) (n_attrib (h a)) (n_text (h a)) (n_tail (h a)) (map the cs))
         else None)"

section \<open>The normalizing builder: \<^verbatim>\<open>OldParseTreeBuilder\<close>\<close>

subsection \<open>Newlines\<close>

text \<open>\<^verbatim>\<open>count_eol_re = re.compile(r'\n+\Z')\<close>: the length of the match is the number of
  newlines the text ends in; no match is zero.\<close>

definition count_eol :: "string \<Rightarrow> nat" where
  "count_eol t = length (takeWhile (\<lambda>c. c = nl) (rev t))"

text \<open>\<^verbatim>\<open>t.rstrip('\n')\<close>, \<^verbatim>\<open>t.strip('\n')\<close> and \<^verbatim>\<open>t.split('\n')\<close>\<close>

definition rstrip_nl :: "string \<Rightarrow> string" where
  "rstrip_nl t = rev (dropWhile (\<lambda>c. c = nl) (rev t))"

definition strip_nl :: "string \<Rightarrow> string" where
  "strip_nl t = dropWhile (\<lambda>c. c = nl) (rstrip_nl t)"

fun split_nl :: "string \<Rightarrow> string list" where
  "split_nl [] = [[]]"
| "split_nl (c # s) =
     (if c = nl then [] # split_nl s
      else (case split_nl s of [] \<Rightarrow> [[c]] | l # ls \<Rightarrow> (c # l) # ls))"

text \<open>\<^verbatim>\<open>t and t.isspace()\<close>\<close>

definition only_space :: "string option \<Rightarrow> bool" where
  "only_space t = (case t of None \<Rightarrow> False | Some s \<Rightarrow> isspace s)"

subsection \<open>The builder object\<close>

text \<open>
  The fields of the builder, after \<^verbatim>\<open>__init__\<close>: \<^verbatim>\<open>_stack\<close> (kept with its top as the head
  of the list), \<^verbatim>\<open>_last\<close>, \<^verbatim>\<open>_data\<close>, \<^verbatim>\<open>_tail\<close> and \<^verbatim>\<open>_seen_eol\<close>, together with the store
  of the elements it has created and the next unused reference.
\<close>

record builder =
  heap :: store
  fresh :: nat
  b_stack :: "nat list"
  b_last :: "nat option"
  b_data :: "string list"
  b_tail :: bool
  b_seen_eol :: int

definition init_builder :: builder where
  "init_builder =
     \<lparr>heap = (\<lambda>_. new_node [] Map.empty), fresh = 0, b_stack = [], b_last = None,
      b_data = [], b_tail = False, b_seen_eol = 2\<rparr>"

definition inline_tags :: "string list" where
  "inline_tags = [''h'', ''emphasis'', ''strong'', ''mark'', ''strike'', ''code'']"

text \<open>
  \<^verbatim>\<open>
  def _append_to_previous(self, text):
      parent = self._stack[-2]
      children = parent.getchildren()[:-1]
      if children:
          if children[-1].tail: children[-1].tail = children[-1].tail + text
          else:                 children[-1].tail = text
      else:
          if parent.text: parent.text = parent.text + text
          else:           parent.text = text
  \<close>
\<close>

definition append_to_previous :: "string \<Rightarrow> builder \<Rightarrow> pyerr + builder" where
  "append_to_previous t b =
     (case b_stack b of
        cur # parent # rest \<Rightarrow>
          (let h = heap b; children = butlast (n_children (h parent)) in
           if children \<noteq> [] then
             (let c = last children
              in Inr (b\<lparr>heap := h(c := (h c)\<lparr>n_tail := Some (or_empty (n_tail (h c)) @ t)\<rparr>)\<rparr>))
           else
             Inr (b\<lparr>heap := h(parent := (h parent)\<lparr>n_text := Some (or_empty (n_text (h parent)) @ t)\<rparr>)\<rparr>))
      | _ \<Rightarrow> Inl IndexError)"

text \<open>
  The loop of \<^verbatim>\<open>_flush\<close> over \<^verbatim>\<open>lines[:-1]\<close>:
  \<^verbatim>\<open>
  for line in lines[:-1]:
      assert self._last.text is None, "internal error (text)"
      assert self._last.tail is None, "internal error (tail)"
      if line and not line.isspace():
          self._last.text = line
          self._last.tail = '\n'
          attrib = self._last.attrib.copy()
          self._last = ElementTreeModule.Element(self._last.tag, attrib)
          self._stack[-2].append(self._last)
          self._stack[-1] = self._last
      else:
          self._append_to_previous(line + '\n')
  \<close>
\<close>

fun split_loop :: "string list \<Rightarrow> builder \<Rightarrow> pyerr + builder" where
  "split_loop [] b = Inr b"
| "split_loop (line # lines) b =
     (case b_last b of
        None \<Rightarrow> Inl AttributeError
      | Some l \<Rightarrow>
          if n_text (heap b l) \<noteq> None \<or> n_tail (heap b l) \<noteq> None then Inl AssertionError
          else if line \<noteq> [] \<and> \<not> isspace line then
            (case b_stack b of
               cur # parent # rest \<Rightarrow>
                 (let h1 = (heap b)(l := (heap b l)\<lparr>n_text := Some line, n_tail := Some [nl]\<rparr>);
                      new = fresh b;
                      h2 = h1(new := new_node (n_tag (h1 l)) (n_attrib (h1 l)))
                  in split_loop lines
                       (b\<lparr>heap := append_child parent new h2, fresh := Suc new,
                          b_last := Some new, b_stack := new # parent # rest\<rparr>))
             | _ \<Rightarrow> Inl IndexError)
          else
            (case append_to_previous (line @ [nl]) b of
               Inl e \<Rightarrow> Inl e
             | Inr b' \<Rightarrow> split_loop lines b'))"

text \<open>
  \<^verbatim>\<open>_flush\<close> in its three parts.  First the trailing newlines:
  \<^verbatim>\<open>
  text = ''.join(self._data)
  if text:
      m = count_eol_re.search(text)
      if m: self._seen_eol = len(m.group(0))
      else: self._seen_eol = 0
  if need_eol > self._seen_eol:
      text += '\n' * (need_eol - self._seen_eol)
      self._seen_eol = need_eol
  \<close>
\<close>

definition fix_trailing :: "int \<Rightarrow> string \<Rightarrow> int \<Rightarrow> string \<times> int" where
  "fix_trailing need_eol t eol =
     (let eol1 = (if t \<noteq> [] then int (count_eol t) else eol)
      in if need_eol > eol1 then (t @ replicate (nat (need_eol - eol1)) nl, need_eol)
         else (t, eol1))"

text \<open>
  Then the leading newlines; \<open>lt\<close> is \<^verbatim>\<open>self._last.tag\<close>:
  \<^verbatim>\<open>
  if self._tail and self._last.tag in ('h', 'p') and not text.startswith('\n'):
      if text: text = '\n' + text
      else:    text = '\n'; self._seen_eol = 1
  elif self._tail and self._last.tag == 'li' and text.startswith('\n'):
      text = text[1:]
      if not text.strip('\n'): self._seen_eol -= 1
  \<close>
\<close>

definition fix_prefix :: "bool \<Rightarrow> string \<Rightarrow> string \<Rightarrow> int \<Rightarrow> string \<times> int" where
  "fix_prefix tail lt t eol =
     (if tail \<and> (lt = ''h'' \<or> lt = ''p'') \<and> \<not> startswith t [nl] then
        (if t \<noteq> [] then (nl # t, eol) else ([nl], 1))
      else if tail \<and> lt = ''li'' \<and> startswith t [nl] then
        (let t' = drop 1 t in (t', if strip_nl t' = [] then eol - 1 else eol))
      else (t, eol))"

text \<open>
  And the assignment of the text:
  \<^verbatim>\<open>
  if text:
      assert not self._last is None, 'data seen before root element'
      self._data = []
      if not self._tail and self._last.tag in ('h', 'emphasis', 'strong', 'mark', 'strike', 'code'):
          if self._seen_eol:
              text = text.rstrip('\n')
              self._data.append('\n' * self._seen_eol)
              self._seen_eol = 0
          lines = text.split('\n')
          for line in lines[:-1]: ...
          assert self._last.text is None, "internal error (text)"
          self._last.text = lines[-1]
      else:
          if self._tail:
              assert self._last.tail is None, "internal error (tail)"
              self._last.tail = text
          else:
              assert self._last.text is None, "internal error (text)"
              self._last.text = text
  else:
      self._data = []
  \<close>
\<close>

definition assign_text :: "string \<Rightarrow> builder \<Rightarrow> pyerr + builder" where
  "assign_text t b =
     (if t = [] then Inr (b\<lparr>b_data := []\<rparr>)
      else
        (case b_last b of
           None \<Rightarrow> Inl AssertionError
         | Some l \<Rightarrow>
             if \<not> b_tail b \<and> n_tag (heap b l) \<in> set inline_tags then
               (let eol = b_seen_eol b;
                    t1 = (if eol \<noteq> 0 then rstrip_nl t else t);
                    b1 = (if eol \<noteq> 0
                          then b\<lparr>b_data := [replicate (nat eol) nl], b_seen_eol := 0\<rparr>
                          else b\<lparr>b_data := []\<rparr>);
                    lines = split_nl t1
                in case split_loop (butlast lines) b1 of
                     Inl e \<Rightarrow> Inl e
                   | Inr b2 \<Rightarrow>
                       (case b_last b2 of
                          None \<Rightarrow> Inl AttributeError
                        | Some l2 \<Rightarrow>
                            if n_text (heap b2 l2) \<noteq> None then Inl AssertionError
                            else Inr (b2\<lparr>heap := (heap b2)(l2 := (heap b2 l2)\<lparr>n_text := Some (last lines)\<rparr>)\<rparr>)))
             else if b_tail b then
               (if n_tail (heap b l) \<noteq> None then Inl AssertionError
                else Inr (b\<lparr>b_data := [], heap := (heap b)(l := (heap b l)\<lparr>n_tail := Some t\<rparr>)\<rparr>))
             else
               (if n_text (heap b l) \<noteq> None then Inl AssertionError
                else Inr (b\<lparr>b_data := [], heap := (heap b)(l := (heap b l)\<lparr>n_text := Some t\<rparr>)\<rparr>))))"

text \<open>\<^verbatim>\<open>self._last.tag\<close> where \<^verbatim>\<open>_flush\<close> reads it behind \<^verbatim>\<open>self._tail and\<close>.\<close>

definition last_tag :: "builder \<Rightarrow> pyerr + string" where
  "last_tag b =
     (if b_tail b then
        (case b_last b of None \<Rightarrow> Inl AttributeError | Some l \<Rightarrow> Inr (n_tag (heap b l)))
      else Inr [])"

definition flush :: "int \<Rightarrow> builder \<Rightarrow> pyerr + builder" where
  "flush need_eol b =
     (case last_tag b of
        Inl e \<Rightarrow> Inl e
      | Inr lt \<Rightarrow>
          (let (t1, eol1) = fix_trailing need_eol (concat (b_data b)) (b_seen_eol b);
               (t2, eol2) = fix_prefix (b_tail b) lt t1 eol1
           in assign_text t2 (b\<lparr>b_seen_eol := eol2\<rparr>)))"

text \<open>
  \<^verbatim>\<open>
  def start(self, tag, attrib=None):
      if tag == '_ignore_': return self._last
      elif tag == 'h': self._flush(need_eol=2)
      elif tag in ('p', 'pre'): self._flush(need_eol=1)
      else: self._flush()
      if tag == 'h':
          if not (attrib and 'level' in attrib):
              logger.warn('Missing "level" attribute for heading')
              attrib = attrib or {}
              attrib['level'] = 1
      elif tag == 'link':
          if not (attrib and 'href' in attrib):
              logger.warn('Missing "href" attribute for link')
              attrib = attrib or {}
              attrib['href'] = "404"
      if attrib: self._last = ElementTreeModule.Element(tag, attrib)
      else:      self._last = ElementTreeModule.Element(tag)
      if self._stack: self._stack[-1].append(self._last)
      else: assert tag == 'zim-tree', 'root element needs to be "zim-tree"'
      self._stack.append(self._last)
      self._tail = False
      return self._last
  \<close>
\<close>

definition need_eol_start :: "string \<Rightarrow> int" where
  "need_eol_start tag = (if tag = ''h'' then 2 else if tag = ''p'' \<or> tag = ''pre'' then 1 else 0)"

definition or_dict :: "attrib option \<Rightarrow> attrib" where
  "or_dict a = (case a of None \<Rightarrow> Map.empty | Some m \<Rightarrow> m)"

definition has_key :: "attrib option \<Rightarrow> string \<Rightarrow> bool" where
  "has_key a k = (case a of None \<Rightarrow> False | Some m \<Rightarrow> m k \<noteq> None)"

definition fix_attrib :: "string \<Rightarrow> attrib option \<Rightarrow> attrib" where
  "fix_attrib tag a =
     (if tag = ''h'' then
        (if has_key a ''level'' then or_dict a else (or_dict a)(''level'' \<mapsto> VInt 1))
      else if tag = ''link'' then
        (if has_key a ''href'' then or_dict a else (or_dict a)(''href'' \<mapsto> VStr ''404''))
      else or_dict a)"

definition b_start :: "string \<Rightarrow> attrib option \<Rightarrow> builder \<Rightarrow> pyerr + builder" where
  "b_start tag a b =
     (if tag = ''_ignore_'' then Inr b
      else
        (case flush (need_eol_start tag) b of
           Inl e \<Rightarrow> Inl e
         | Inr b1 \<Rightarrow>
             (let new = fresh b1;
                  h1 = (heap b1)(new := new_node tag (fix_attrib tag a))
              in case b_stack b1 of
                   [] \<Rightarrow>
                     if tag \<noteq> ''zim-tree'' then Inl AssertionError
                     else Inr (b1\<lparr>heap := h1, fresh := Suc new, b_last := Some new,
                                 b_stack := [new], b_tail := False\<rparr>)
                 | cur # rest \<Rightarrow>
                     Inr (b1\<lparr>heap := append_child cur new h1, fresh := Suc new, b_last := Some new,
                            b_stack := new # cur # rest, b_tail := False\<rparr>))))"

text \<open>
  \<^verbatim>\<open>
  def end(self, tag):
      if tag == '_ignore_': return None
      elif tag in ('p', 'pre'): self._flush(need_eol=1)
      else: self._flush()
      self._last = self._stack[-1]
      assert self._last.tag == tag, "end tag mismatch (expected %s, got %s)" % (self._last.tag, tag)
      self._tail = True
      if len(self._stack) > 1 and not (tag == 'img' or tag == 'object'
      or (self._last.text and not self._last.text.isspace())
      or self._last.getchildren() ):
          if self._last.text and self._last.text.isspace():
              self._append_to_previous(self._last.text)
          empty = self._stack.pop()
          self._stack[-1].remove(empty)
          children = self._stack[-1].getchildren()
          if children:
              self._last = children[-1]
              if not self._last.tail is None:
                  self._data = [self._last.tail]
                  self._last.tail = None
          else:
              self._last = self._stack[-1]
              if not self._last.text is None:
                  self._data = [self._last.text]
                  self._last.text = None
          return empty
      else:
          return self._stack.pop()
  \<close>
\<close>

definition need_eol_end :: "string \<Rightarrow> int" where
  "need_eol_end tag = (if tag = ''p'' \<or> tag = ''pre'' then 1 else 0)"

text \<open>The part of \<^verbatim>\<open>end\<close> after \<^verbatim>\<open>empty = self._stack.pop()\<close>: the element \<open>emp\<close> is
  removed from \<open>parent\<close>, the new top of the stack, and the text before it is taken back
  into the buffer.\<close>

definition purge :: "nat \<Rightarrow> nat \<Rightarrow> nat list \<Rightarrow> builder \<Rightarrow> pyerr + builder" where
  "purge emp parent rest b =
     (if emp \<notin> set (n_children (heap b parent)) then Inl ValueError
      else
        (let h = (heap b)(parent := (heap b parent)\<lparr>n_children := remove1 emp (n_children (heap b parent))\<rparr>);
             children = n_children (h parent);
             b1 = b\<lparr>heap := h, b_stack := parent # rest\<rparr>
         in if children \<noteq> [] then
              (let c = last children
               in case n_tail (h c) of
                    None \<Rightarrow> Inr (b1\<lparr>b_last := Some c\<rparr>)
                  | Some t \<Rightarrow>
                      Inr (b1\<lparr>b_last := Some c, b_data := [t], heap := h(c := (h c)\<lparr>n_tail := None\<rparr>)\<rparr>))
            else
              (case n_text (h parent) of
                 None \<Rightarrow> Inr (b1\<lparr>b_last := Some parent\<rparr>)
               | Some t \<Rightarrow>
                   Inr (b1\<lparr>b_last := Some parent, b_data := [t],
                          heap := h(parent := (h parent)\<lparr>n_text := None\<rparr>)\<rparr>))))"

definition b_end :: "string \<Rightarrow> builder \<Rightarrow> pyerr + builder" where
  "b_end tag b =
     (if tag = ''_ignore_'' then Inr b
      else
        (case flush (need_eol_end tag) b of
           Inl e \<Rightarrow> Inl e
         | Inr b1 \<Rightarrow>
             (case b_stack b1 of
                [] \<Rightarrow> Inl IndexError
              | cur # rest \<Rightarrow>
                  if n_tag (heap b1 cur) \<noteq> tag then Inl AssertionError
                  else
                    (let b2 = b1\<lparr>b_last := Some cur, b_tail := True\<rparr>;
                         t = n_text (heap b2 cur)
                     in if rest \<noteq> [] \<and> \<not> (tag = ''img'' \<or> tag = ''object'' \<or> has_content t
                                          \<or> n_children (heap b2 cur) \<noteq> []) then
                          (case (if only_space t then append_to_previous (or_empty t) b2 else Inr b2) of
                             Inl e \<Rightarrow> Inl e
                           | Inr b3 \<Rightarrow> purge cur (hd rest) (tl rest) b3)
                        else Inr (b2\<lparr>b_stack := rest\<rparr>)))))"

text \<open>\<^verbatim>\<open>def data(self, text): self._data.append(text)\<close>\<close>

definition b_data_add :: "string \<Rightarrow> builder \<Rightarrow> pyerr + builder" where
  "b_data_add t b = Inr (b\<lparr>b_data := b_data b @ [t]\<rparr>)"

text \<open>
  \<^verbatim>\<open>
  def close(self):
      assert len(self._stack) == 0, 'missing end tags'
      assert not self._last is None and self._last.tag == 'zim-tree', 'missing root element'
      return self._last
  \<close>
\<close>

definition b_close :: "builder \<Rightarrow> pyerr + nat" where
  "b_close b =
     (if b_stack b \<noteq> [] then Inl AssertionError
      else
        (case b_last b of
           None \<Rightarrow> Inl AssertionError
         | Some l \<Rightarrow> if n_tag (heap b l) = ''zim-tree'' then Inr l else Inl AssertionError))"

subsection \<open>Event streams\<close>

datatype event = Start string "attrib option" | Data string | End string

fun step :: "event \<Rightarrow> builder \<Rightarrow> pyerr + builder" where
  "step (Start tag a) b = b_start tag a b"
| "step (Data t) b = b_data_add t b"
| "step (End tag) b = b_end tag b"

fun run :: "event list \<Rightarrow> builder \<Rightarrow> pyerr + builder" where
  "run [] b = Inr b"
| "run (e # es) b = (case step e b of Inl err \<Rightarrow> Inl err | Inr b' \<Rightarrow> run es b')"

text \<open>Feeding a whole stream to a new builder and closing it: the tree that was built,
  read back from the store as a value.\<close>

definition build :: "event list \<Rightarrow> pyerr + element option" where
  "build es =
     (case run es init_builder of
        Inl err \<Rightarrow> Inl err
      | Inr b \<Rightarrow> (case b_close b of Inl err \<Rightarrow> Inl err | Inr root \<Rightarrow> Inr (tree_of (fresh b + 1) (heap b) root)))"

definition page :: "event list \<Rightarrow> event list" where
  "page es = Start ''zim-tree'' None # es @ [End ''zim-tree'']"

text \<open>The builder as it stands after a stream, for streams that are accepted.\<close>

definition state_after :: "event list \<Rightarrow> builder" where
  "state_after es = (case run es init_builder of Inl _ \<Rightarrow> init_builder | Inr b \<Rightarrow> b)"

section \<open>\<^verbatim>\<open>ParseTree.extend\<close>\<close>

text \<open>
  \<^verbatim>\<open>
  def extend(self, tree):
      myroot = self.getroot(); otherroot = tree.getroot()
      if otherroot.text:
          children = myroot.getchildren()
          if children:
              last = children[-1]
              last.tail = (last.tail or '') + otherroot.text
          else:
              myroot.text = (myroot.text or '') + otherroot.text
      for element in otherroot.getchildren():
          myroot.append(element)
      return self
  __add__ = extend
  \<close>
  A tree is given by the reference of its root.  The children of the other root are
  read once, when the loop starts.
\<close>

definition merge_text :: "nat \<Rightarrow> nat \<Rightarrow> store \<Rightarrow> store" where
  "merge_text myroot otherroot h =
     (if truthy (n_text (h otherroot)) then
        (case n_children (h myroot) of
           [] \<Rightarrow> h(myroot := (h myroot)\<lparr>n_text :=
                    Some (or_empty (n_text (h myroot)) @ or_empty (n_text (h otherroot)))\<rparr>)
         | c # cs \<Rightarrow>
             (let l = last (c # cs)
              in h(l := (h l)\<lparr>n_tail :=
                    Some (or_empty (n_tail (h l)) @ or_empty (n_text (h otherroot)))\<rparr>)))
      else h)"

definition extend :: "nat \<Rightarrow> nat \<Rightarrow> store \<Rightarrow> store \<times> nat" where
  "extend myroot otherroot h =
     (let h1 = merge_text myroot otherroot h
      in (foldl (\<lambda>h' element. append_child myroot element h') h1 (n_children (h1 otherroot)),
          myroot))"

text \<open>Two trees in one store: a page with one paragraph at 0 and 1, and a page with leading
  text and two paragraphs at 2, 3 and 4.\<close>

definition two_trees :: store where
  "two_trees =
     (\<lambda>_. new_node [] Map.empty)
       (0 := (new_node ''zim-tree'' Map.empty)\<lparr>n_children := [1]\<rparr>,
        1 := (new_node ''p'' Map.empty)\<lparr>n_text := Some ''a''\<rparr>,
        2 := (new_node ''zim-tree'' Map.empty)\<lparr>n_text := Some ''t'', n_children := [3, 4]\<rparr>,
        3 := (new_node ''p'' Map.empty)\<lparr>n_text := Some ''b''\<rparr>,
        4 := (new_node ''p'' Map.empty)\<lparr>n_text := Some ''c''\<rparr>)"

section \<open>The split of an inline element, as a function of its lines\<close>

text \<open>The test \<^verbatim>\<open>line and not line.isspace()\<close> fails for a line that is empty or holds
  only whitespace.\<close>

definition blank :: "string \<Rightarrow> bool" where
  "blank line = (line = [] \<or> isspace line)"

text \<open>What the split can touch below the parent of the open element: the parent's text and
  the parent's children, in order.\<close>

type_synonym row = "string option \<times> node list"

definition row_of :: "store \<Rightarrow> nat \<Rightarrow> row" where
  "row_of h parent = (n_text (h parent), map h (n_children (h parent)))"

text \<open>
  The effect of one line in the words of the description.  A line that is not blank becomes
  the text of the open element, the last of the row, which gets a newline as tail and is
  followed by a new element of the same tag and attributes.  A blank line is added with its
  newline to the tail of the sibling before the open element, or to the parent's text when
  there is no such sibling.
\<close>

definition split_step :: "string \<Rightarrow> row \<Rightarrow> row" where
  "split_step line r =
     (case r of (pt, sibs) \<Rightarrow>
        if \<not> blank line then
          (pt, butlast sibs @ [(last sibs)\<lparr>n_text := Some line, n_tail := Some [nl]\<rparr>,
                               new_node (n_tag (last sibs)) (n_attrib (last sibs))])
        else if butlast sibs = [] then (Some (or_empty pt @ line @ [nl]), sibs)
        else
          (pt, butlast (butlast sibs)
               @ [(last (butlast sibs))\<lparr>n_tail := Some (or_empty (n_tail (last (butlast sibs))) @ line @ [nl])\<rparr>,
                  last sibs]))"

text \<open>All lines but the last are treated so; the last line becomes the text of the element
  that is open in the end.\<close>

definition split_siblings :: "string list \<Rightarrow> row \<Rightarrow> row" where
  "split_siblings lines r =
     (case foldl (\<lambda>r line. split_step line r) r (butlast lines) of
        (pt, sibs) \<Rightarrow> (pt, butlast sibs @ [(last sibs)\<lparr>n_text := Some (last lines)\<rparr>]))"

text \<open>
  The builder stands in an open element that has no text yet: \<^verbatim>\<open>_last\<close> is the top of the
  stack and the last child of \<open>parent\<close>, the element below it on the stack, whose children
  are distinct elements created before.
\<close>

definition open_pos :: "builder \<Rightarrow> nat \<Rightarrow> nat list \<Rightarrow> bool" where
  "open_pos b parent rest =
     (case b_last b of
        None \<Rightarrow> False
      | Some l \<Rightarrow>
          b_stack b = l # parent # rest
          \<and> n_children (heap b parent) \<noteq> [] \<and> last (n_children (heap b parent)) = l
          \<and> distinct (n_children (heap b parent)) \<and> parent \<notin> set (n_children (heap b parent))
          \<and> list_all (\<lambda>c. c < fresh b) (n_children (heap b parent)) \<and> parent < fresh b
          \<and> n_text (heap b l) = None \<and> n_tail (heap b l) = None)"

text \<open>The lines that \<^verbatim>\<open>_flush\<close> splits, from the padded text and the newline count.\<close>

definition flush_lines :: "string \<Rightarrow> int \<Rightarrow> string list" where
  "flush_lines t eol = split_nl (if eol \<noteq> 0 then rstrip_nl t else t)"

section \<open>Text in front of a heading\<close>

text \<open>A text padded with newlines so that it ends in at least \<open>n\<close> of them.\<close>

definition pad_eol :: "nat \<Rightarrow> string \<Rightarrow> string" where
  "pad_eol n t = t @ replicate (n - count_eol t) nl"



section \<open>Nesting of an event stream\<close>

text \<open>
  The open tags of a stream, innermost first, by the words of the description: a start
  opens its tag, an end closes the innermost open tag and must name it, the first element
  opened must be \<^verbatim>\<open>zim-tree\<close>, and \<^verbatim>\<open>_ignore_\<close> counts for nothing.  \<open>None\<close> is a
  structural error.
\<close>

fun nesting :: "event list \<Rightarrow> string list \<Rightarrow> string list option" where
  "nesting [] st = Some st"
| "nesting (Start tag a # es) st =
     (if tag = ''_ignore_'' then nesting es st
      else if st = [] \<and> tag \<noteq> ''zim-tree'' then None
      else nesting es (tag # st))"
| "nesting (Data t # es) st = nesting es st"
| "nesting (End tag # es) st =
     (if tag = ''_ignore_'' then nesting es st
      else (case st of
              [] \<Rightarrow> None
            | cur # rest \<Rightarrow> if cur = tag then nesting es rest else None))"

text \<open>A stream is well nested when it has no structural error and leaves nothing open.\<close>

definition well_nested :: "event list \<Rightarrow> bool" where
  "well_nested es = (nesting es [] = Some [])"

text \<open>The tags of the elements on the stack of a builder, innermost first.\<close>

definition open_tags :: "builder \<Rightarrow> string list" where
  "open_tags b = map (\<lambda>a. n_tag (heap b a)) (b_stack b)"

text \<open>
  What holds of the stack in every state a builder reaches: the elements on it were
  created before, and inside an element, before any end tag, \<^verbatim>\<open>_last\<close> is the top of the
  stack.
\<close>

definition stack_ok :: "builder \<Rightarrow> bool" where
  "stack_ok b =
     (list_all (\<lambda>a. a < fresh b) (b_stack b)
      \<and> (\<not> b_tail b \<and> b_stack b \<noteq> [] \<longrightarrow> b_last b = Some (hd (b_stack b))))"

text \<open>
  The warnings that \<^verbatim>\<open>start\<close> logs:
  \<^verbatim>\<open>
  if tag == 'h':
      if not (attrib and 'level' in attrib):
          logger.warn('Missing "level" attribute for heading')
  elif tag == 'link':
      if not (attrib and 'href' in attrib):
          logger.warn('Missing "href" attribute for link')
  \<close>
\<close>

datatype warning = Missing_level | Missing_href

definition start_warnings :: "string \<Rightarrow> attrib option \<Rightarrow> warning list" where
  "start_warnings tag a =
     (if tag = ''h'' \<and> \<not> has_key a ''level'' then [Missing_level]
      else if tag = ''link'' \<and> \<not> has_key a ''href'' then [Missing_href]
      else [])"

section \<open>List markers\<close>

lemma startswith_iff: "startswith s p \<longleftrightarrow> (\<exists>post. s = p @ post)"
proof
  assume "startswith s p"
  then have "s = p @ drop (length p) s"
    by (metis append_take_drop_id startswith_def)
  then show "\<exists>post. s = p @ post" ..
next
  assume "\<exists>post. s = p @ post"
  then show "startswith s p" by (auto simp: startswith_def)
qed

lemma str_index_single: "distinct s \<Longrightarrow> i < length s \<Longrightarrow> str_index s [s ! i] = Some i"
proof (induction s arbitrary: i)
  case Nil
  then show ?case by simp
next
  case (Cons c s)
  show ?case
  proof (cases i)
    case 0
    then show ?thesis by (simp add: startswith_def)
  next
    case (Suc j)
    with Cons.prems have "s ! j \<noteq> c" by auto
    with Cons Suc show ?thesis by (simp add: startswith_def)
  qed
qed

lemma str_index_None: "(\<nexists>pre post. s = pre @ sub @ post) \<Longrightarrow> str_index s sub = None"
proof (induction s)
  case Nil
  then show ?case by auto
next
  case (Cons c s)
  have "\<not> startswith (c # s) sub"
    using Cons.prems startswith_iff[of "c # s" sub] by (metis append_Nil)
  moreover have "\<nexists>pre post. s = pre @ sub @ post"
    using Cons.prems by (metis append_Cons)
  ultimately show ?case using Cons.IH by simp
qed

lemma letters_not_int: "c \<in> set letters \<Longrightarrow> py_int [c] = None"
  by (auto simp: letters_def py_int_def strip_ws_def is_ws_def int_of_digits_def is_digit_def)

lemma distinct_letters: "distinct letters"
  by (simp add: letters_def)

text \<open>
  Claim C9, as amended.  An input that parses as an integer gives the string of that
  integer plus one; a single letter other than the last of \<^verbatim>\<open>string.letters\<close> gives the
  next letter of \<^verbatim>\<open>string.letters\<close>, so that \<^verbatim>\<open>'z'\<close> gives \<^verbatim>\<open>'A'\<close>; the last letter
  \<^verbatim>\<open>'Z'\<close> wraps to the first, \<^verbatim>\<open>'a'\<close>; an input that is no integer and does not occur
  in \<^verbatim>\<open>string.letters\<close> gives \<^verbatim>\<open>None\<close>.
\<close>

theorem increase_list_iter_cases:
  "(py_int s = Some i \<longrightarrow> increase_list_iter s = Some (py_str (i + 1)))
   \<and> (k + 1 < length letters \<longrightarrow> increase_list_iter [letters ! k] = Some [letters ! (k + 1)])
   \<and> increase_list_iter ''z'' = Some ''A''
   \<and> increase_list_iter ''Z'' = Some ''a''
   \<and> (py_int s = None \<and> (\<nexists>pre post. letters = pre @ s @ post) \<longrightarrow> increase_list_iter s = None)"
proof -
  have 1: "py_int s = Some i \<longrightarrow> increase_list_iter s = Some (py_str (i + 1))"
    by (simp add: increase_list_iter_def)
  have 2: "increase_list_iter [letters ! k] = Some [letters ! (k + 1)]" if "k + 1 < length letters" for k
  proof -
    have "py_int [letters ! k] = None"
      using that by (intro letters_not_int) simp
    moreover have "str_index letters [letters ! k] = Some k"
      using that distinct_letters by (intro str_index_single) simp_all
    ultimately show ?thesis using that by (simp add: increase_list_iter_def)
  qed
  have 3: "increase_list_iter ''z'' = Some ''A''"
    using 2[of 25] by (simp add: letters_def)
  have "py_int ''Z'' = None"
    by (intro letters_not_int) (simp add: letters_def)
  moreover have "str_index letters [letters ! 51] = Some 51"
    using distinct_letters by (intro str_index_single) (simp_all add: letters_def)
  ultimately have 4: "increase_list_iter ''Z'' = Some ''a''"
    by (simp add: increase_list_iter_def) (simp add: letters_def)
  have 5: "py_int s = None \<and> (\<nexists>pre post. letters = pre @ s @ post) \<longrightarrow> increase_list_iter s = None"
    using str_index_None[of letters s] by (simp add: increase_list_iter_def)
  from 1 2 3 4 5 show ?thesis by blast
qed

theorem increase_list_iter_cases_witness:
  "py_int ''41'' = Some 41 \<and> increase_list_iter ''41'' = Some ''42''
   \<and> increase_list_iter ''c'' = Some ''d''
   \<and> py_int ''?'' = None \<and> increase_list_iter ''?'' = None"
proof -
  have p: "py_int ''41'' = Some 41"
    by (simp add: py_int_def strip_ws_def is_ws_def int_of_digits_def is_digit_def
        digits_val_def digit_val_def)
  have s: "py_str (41 + 1) = ''42''"
    by (simp add: py_str_def nat_str.simps digit_char_def)
  have k: "(2::nat) + 1 < length letters" "letters ! 2 = CHR ''c''" "letters ! (2 + 1) = CHR ''d''"
    by (simp_all add: letters_def)
  have q: "py_int ''?'' = None"
    by (simp add: py_int_def strip_ws_def is_ws_def int_of_digits_def is_digit_def)
  have n: "\<nexists>pre post. letters = pre @ ''?'' @ post"
  proof
    assume "\<exists>pre post. letters = pre @ ''?'' @ post"
    then obtain pre post where "letters = pre @ ''?'' @ post" by blast
    then have "set letters = set (pre @ ''?'' @ post)" by simp
    then have "CHR ''?'' \<in> set letters" by simp
    then show False by (simp add: letters_def)
  qed
  from increase_list_iter_cases[of "''41''" 41 2] p s k
  have a: "increase_list_iter ''41'' = Some ''42''" "increase_list_iter ''c'' = Some ''d''"
    by simp_all
  from increase_list_iter_cases[of "''?''" 0 0] q n
  have "increase_list_iter ''?'' = None" by blast
  with a p q show ?thesis by simp
qed

text \<open>The letter after \<^verbatim>\<open>'z'\<close> is \<^verbatim>\<open>'A'\<close>: there is no wrap from \<^verbatim>\<open>'z'\<close> to \<^verbatim>\<open>'a'\<close>.\<close>

theorem increase_list_iter_z_counterexample:
  "increase_list_iter ''z'' \<noteq> Some ''a''"
  by (simp add: increase_list_iter_def py_int_def strip_ws_def is_ws_def int_of_digits_def
      is_digit_def letters_def startswith_def)

section \<open>Heading renumbering\<close>

lemma pop_path_top:
  "(case pop_path l path of [] \<Rightarrow> None | p # _ \<Rightarrow> Some p) = find (\<lambda>p. fst p < l) path"
  by (induction path) auto

lemma find_pop_path:
  "q \<le> l \<Longrightarrow> find (\<lambda>p. fst p < q) (pop_path l path) = find (\<lambda>p. fst p < q) path"
  by (induction path) auto

lemma new_level_pop:
  assumes "\<forall>q. find (\<lambda>p. fst p < q) path = find (\<lambda>p. fst p < q) hist"
  shows "new_level offset mx (pop_path l path) =
           min mx (case find (\<lambda>p. fst p < l) hist of None \<Rightarrow> offset + 1 | Some p \<Rightarrow> snd p + 1)"
proof -
  have "(case pop_path l path of [] \<Rightarrow> None | p # _ \<Rightarrow> Some p) = find (\<lambda>p. fst p < l) hist"
    using pop_path_top[of l path] assms by simp
  then show ?thesis
    by (auto simp: new_level_def Let_def min_def split: list.splits option.splits)
qed

text \<open>The stack answers every "nearest smaller level" query as the full history does.\<close>

lemma renumber_nearest:
  "(\<forall>q. find (\<lambda>p. fst p < q) path = find (\<lambda>p. fst p < q) hist) \<Longrightarrow>
   fst (renumber offset mx path ls) = nearest_levels offset mx hist ls"
proof (induction ls arbitrary: path hist)
  case Nil
  then show ?case by simp
next
  case (Cons l ls)
  let ?n = "new_level offset mx (pop_path l path)"
  have n: "?n = min mx (case find (\<lambda>p. fst p < l) hist of
                          None \<Rightarrow> offset + 1 | Some p \<Rightarrow> snd p + 1)"
    using new_level_pop[OF Cons.prems] .
  have inv: "\<forall>q. find (\<lambda>p. fst p < q) ((l, ?n) # pop_path l path)
                 = find (\<lambda>p. fst p < q) ((l, ?n) # hist)"
  proof
    fix q
    show "find (\<lambda>p. fst p < q) ((l, ?n) # pop_path l path)
            = find (\<lambda>p. fst p < q) ((l, ?n) # hist)"
      using find_pop_path[of q l path] Cons.prems by (cases "l < q") auto
  qed
  show ?case
    using Cons.IH[OF inv] n by (simp add: heading_step_def Let_def case_prod_beta)
qed

lemma renumber_append:
  "renumber offset mx path (xs @ ys) =
     (fst (renumber offset mx path xs) @ fst (renumber offset mx (snd (renumber offset mx path xs)) ys),
      snd (renumber offset mx (snd (renumber offset mx path xs)) ys))"
  by (induction xs arbitrary: path) (simp_all add: Let_def case_prod_beta)

lemma nearest_levels_le: "n \<in> set (nearest_levels offset mx hist ls) \<Longrightarrow> n \<le> mx"
  by (induction ls arbitrary: hist) (auto simp: Let_def)

lemma nearest_levels_nested:
  "\<forall>p\<in>set hist. snd p \<le> fst p \<Longrightarrow> \<forall>l\<in>set ls. offset + 1 \<le> l \<and> l \<le> mx \<Longrightarrow>
   nearest_levels offset mx hist ls = nested_levels offset hist ls"
proof (induction ls arbitrary: hist)
  case Nil
  then show ?case by simp
next
  case (Cons l ls)
  let ?m = "case find (\<lambda>p. fst p < l) hist of None \<Rightarrow> offset + 1 | Some p \<Rightarrow> snd p + 1"
  have "?m \<le> l"
  proof (cases "find (\<lambda>p. fst p < l) hist")
    case None
    then show ?thesis using Cons.prems(2) by simp
  next
    case (Some p)
    then have "fst p < l" "p \<in> set hist"
      by (auto simp: find_Some_iff)
    then show ?thesis using Some Cons.prems(1) by force
  qed
  moreover have "l \<le> mx" using Cons.prems(2) by simp
  ultimately have m: "min mx ?m = ?m" by simp
  have "\<forall>p\<in>set ((l, ?m) # hist). snd p \<le> fst p"
    using Cons.prems(1) \<open>?m \<le> l\<close> by simp
  then have "nearest_levels offset mx ((l, ?m) # hist) ls = nested_levels offset ((l, ?m) # hist) ls"
    using Cons.IH Cons.prems(2) by simp
  then show ?case using m by (simp add: Let_def)
qed

lemma cleanup_elems_levels:
  assumes IH: "\<And>c path ls. c \<in> set cs \<Longrightarrow> heading_levels c = map Inr ls \<Longrightarrow>
            \<exists>c'. cleanup_elem offset mx path c = Inr (snd (renumber offset mx path ls), c')
                \<and> heading_levels c' = map Inr (fst (renumber offset mx path ls))"
  shows "levels_list cs = map Inr ls \<Longrightarrow>
         \<exists>cs'. cleanup_elems offset mx path cs = Inr (snd (renumber offset mx path ls), cs')
              \<and> levels_list cs' = map Inr (fst (renumber offset mx path ls))"
  using IH
proof (induction cs arbitrary: path ls)
  case Nil
  then show ?case by (simp add: levels_list_def)
next
  case (Cons c cs)
  from Cons.prems(1) have "heading_levels c @ levels_list cs = map Inr ls"
    by (simp add: levels_list_def heading_levels_def)
  then obtain l1 l2 where ls: "ls = l1 @ l2" and h1: "heading_levels c = map Inr l1"
    and h2: "levels_list cs = map Inr l2"
    by (auto simp: append_eq_map_conv)
  obtain c' where c': "cleanup_elem offset mx path c = Inr (snd (renumber offset mx path l1), c')"
      "heading_levels c' = map Inr (fst (renumber offset mx path l1))"
    using Cons.prems(2)[of c l1 path] h1 by auto
  let ?p = "snd (renumber offset mx path l1)"
  obtain cs' where cs': "cleanup_elems offset mx ?p cs = Inr (snd (renumber offset mx ?p l2), cs')"
      "levels_list cs' = map Inr (fst (renumber offset mx ?p l2))"
    using Cons.IH[OF h2, of ?p] Cons.prems(2) by auto
  have "levels_list (c' # cs') = heading_levels c' @ levels_list cs'"
    by (simp add: levels_list_def heading_levels_def)
  then show ?case
    using c' cs' by (simp add: ls renumber_append)
qed

lemma cleanup_elem_levels:
  "heading_levels t = map Inr ls \<Longrightarrow>
   \<exists>t'. cleanup_elem offset mx path t = Inr (snd (renumber offset mx path ls), t')
       \<and> heading_levels t' = map Inr (fst (renumber offset mx path ls))"
proof (induction t arbitrary: path ls)
  case (Element tg at tx ta cs)
  have IH: "\<And>c path ls. c \<in> set cs \<Longrightarrow> heading_levels c = map Inr ls \<Longrightarrow>
            \<exists>c'. cleanup_elem offset mx path c = Inr (snd (renumber offset mx path ls), c')
                \<and> heading_levels c' = map Inr (fst (renumber offset mx path ls))"
    using Element.IH by blast
  show ?case
  proof (cases "tg = ''h''")
    case False
    with Element.prems have "levels_list cs = map Inr ls"
      by (simp add: heading_levels_def levels_list_def)
    from cleanup_elems_levels[where path=path, OF IH this] obtain cs' where
      "cleanup_elems offset mx path cs = Inr (snd (renumber offset mx path ls), cs')"
      "levels_list cs' = map Inr (fst (renumber offset mx path ls))" by blast
    with False show ?thesis
      by (simp add: heading_levels_def levels_list_def)
  next
    case True
    with Element.prems have "attr_int at ''level'' # levels_list cs = map Inr ls"
      by (simp add: heading_levels_def levels_list_def)
    then obtain l ls' where ls: "ls = l # ls'" and l: "attr_int at ''level'' = Inr l"
      and r: "levels_list cs = map Inr ls'"
      by (cases ls) auto
    let ?n = "fst (heading_step offset mx path l)"
    let ?p = "snd (heading_step offset mx path l)"
    from cleanup_elems_levels[where path="?p", OF IH r] obtain cs' where cs':
      "cleanup_elems offset mx ?p cs = Inr (snd (renumber offset mx ?p ls'), cs')"
      "levels_list cs' = map Inr (fst (renumber offset mx ?p ls'))" by blast
    have "attr_int (at(''level'' \<mapsto> VInt ?n)) ''level'' = Inr ?n"
      by (simp add: attr_int_def)
    with True l cs' show ?thesis
      by (simp add: ls heading_levels_def levels_list_def case_prod_beta Let_def)
  qed
qed

text \<open>
  Claim C5, as amended.  For a tree whose headings all carry an integer level,
  \<^verbatim>\<open>cleanup_headings(offset, max)\<close> succeeds and assigns to every heading, in document
  order, one more than the level assigned to its nearest enclosing heading (the nearest
  earlier heading of smaller original level), or \<open>offset + 1\<close> when there is none,
  clamped to \<open>max\<close>; so no assigned level exceeds \<open>max\<close>.  When all original levels lie in
  \<open>1..6\<close>, \<^verbatim>\<open>cleanup_headings(0, 6)\<close> never clamps: each heading is exactly one level
  below its enclosing heading.
\<close>

theorem cleanup_headings_levels:
  assumes "heading_levels t = map Inr ls"
  shows "assigned_levels offset mx t = Inr (map Inr (nearest_levels offset mx [] ls))
       \<and> (\<forall>n\<in>set (nearest_levels offset mx [] ls). n \<le> mx)
       \<and> ((\<forall>l\<in>set ls. 1 \<le> l \<and> l \<le> 6) \<longrightarrow>
            assigned_levels 0 6 t = Inr (map Inr (nested_levels 0 [] ls)))"
proof -
  have run: "assigned_levels off m t = Inr (map Inr (nearest_levels off m [] ls))" for off m
  proof -
    obtain t' where t': "cleanup_elem off m [] t = Inr (snd (renumber off m [] ls), t')"
        "heading_levels t' = map Inr (fst (renumber off m [] ls))"
      using cleanup_elem_levels[OF assms, of off m "[]"] by blast
    have "fst (renumber off m [] ls) = nearest_levels off m [] ls"
      by (rule renumber_nearest) simp
    with t' show ?thesis
      by (simp add: assigned_levels_def cleanup_headings_def)
  qed
  have "nearest_levels 0 6 [] ls = nested_levels 0 [] ls" if "\<forall>l\<in>set ls. 1 \<le> l \<and> l \<le> 6"
    using nearest_levels_nested[of "[]" ls 0 6] that by simp
  then show ?thesis
    using run[of offset mx] run[of 0 6] nearest_levels_le[of _ offset mx "[]" ls] by auto
qed

theorem cleanup_headings_levels_witness:
  "heading_levels gap_headings = map Inr [2, 5, 3, 6, 1, 4]
   \<and> assigned_levels 0 6 gap_headings = Inr (map Inr [1, 2, 2, 3, 1, 2])"
proof -
  have h: "heading_levels gap_headings = map Inr [2, 5, 3, 6, 1, 4]"
    by (simp add: gap_headings_def page_of_def heading_elem_def heading_levels_def attr_int_def)
  have b: "\<forall>l\<in>set [2, 5, 3, 6, 1, 4 :: int]. 1 \<le> l \<and> l \<le> 6"
    by simp
  have n: "nested_levels 0 [] [2, 5, 3, 6, 1, 4] = [1, 2, 2, 3, 1, 2]"
    by (simp add: Let_def)
  from cleanup_headings_levels[OF h, of 0 6] b n
  have "assigned_levels 0 6 gap_headings = Inr (map Inr [1, 2, 2, 3, 1, 2])"
    by simp
  with h show ?thesis by blast
qed

text \<open>
  Seven headings of levels 1 to 7: the seventh, enclosed by the sixth, is clamped to
  level 6 and so is not one level below the heading that encloses it.
\<close>

theorem cleanup_headings_clamp_counterexample:
  "heading_levels seven_headings = map Inr [1, 2, 3, 4, 5, 6, 7]
   \<and> assigned_levels 0 6 seven_headings = Inr (map Inr [1, 2, 3, 4, 5, 6, 6])"
  by (simp add: seven_headings_def page_of_def heading_elem_def heading_levels_def attr_int_def
      assigned_levels_def cleanup_headings_def heading_step_def new_level_def Let_def)

section \<open>Removing the leading heading\<close>

text \<open>
  Claim C7, as amended.  When the root text is absent or whitespace-only and the first
  child is an \<^verbatim>\<open>h\<close> whose integer level is at most the given level (or the given level
  is \<open>-1\<close>), \<^verbatim>\<open>pop_heading\<close> removes that heading and returns its text and level; the
  heading's tail becomes the new root text only when it holds a character that is not
  whitespace, otherwise the tail is dropped and the root text stays as it was.  When the
  root text holds such a character, when the first child is not an \<^verbatim>\<open>h\<close>, or when its
  level exceeds the given level, the tree is unchanged and \<^verbatim>\<open>(None, None)\<close> is returned.
\<close>

theorem pop_heading_cases:
  "(\<not> has_content (e_text root) \<and> e_children root = first # rest \<and> e_tag first = ''h''
      \<and> attr_int (e_attrib first) ''level'' = Inr mylevel \<and> (level = - 1 \<or> mylevel \<le> level)
    \<longrightarrow> pop_heading level root =
          Inr (RetPair (e_text first) (Some mylevel),
               Element (e_tag root) (e_attrib root)
                 (if has_content (e_tail first) then e_tail first else e_text root)
                 (e_tail root) rest))
   \<and> (has_content (e_text root) \<longrightarrow> pop_heading level root = Inr (RetPair None None, root))
   \<and> (e_children root = first # rest \<and> e_tag first \<noteq> ''h''
        \<longrightarrow> pop_heading level root = Inr (RetPair None None, root))
   \<and> (e_children root = first # rest \<and> e_tag first = ''h''
        \<and> attr_int (e_attrib first) ''level'' = Inr mylevel \<and> level \<noteq> - 1 \<and> level < mylevel
        \<longrightarrow> pop_heading level root = Inr (RetPair None None, root))"
  by (simp add: pop_heading_def)

theorem pop_heading_cases_witness:
  "pop_heading 1 (page_of [Element ''h'' [''level'' \<mapsto> VInt 1] (Some ''Title'') (Some ''rest'') [],
                           para_elem ''x''])
     = Inr (RetPair (Some ''Title'') (Some 1),
            Element ''zim-tree'' Map.empty (Some ''rest'') None [para_elem ''x''])
   \<and> pop_heading 1 (Element ''zim-tree'' Map.empty (Some ''intro'') None [heading_elem (VInt 1) ''Title''])
     = Inr (RetPair None None,
            Element ''zim-tree'' Map.empty (Some ''intro'') None [heading_elem (VInt 1) ''Title''])
   \<and> pop_heading 1 (page_of [para_elem ''x'']) = Inr (RetPair None None, page_of [para_elem ''x''])
   \<and> pop_heading 1 (page_of [heading_elem (VInt 2) ''Title''])
     = Inr (RetPair None None, page_of [heading_elem (VInt 2) ''Title''])"
proof -
  let ?h = "Element ''h'' [''level'' \<mapsto> VInt 1] (Some ''Title'') (Some ''rest'') []"
  have ws: "\<not> isspace ''rest''" "\<not> isspace ''intro''"
    by (simp_all add: isspace_def is_ws_def)
  have a: "pop_heading 1 (page_of [?h, para_elem ''x''])
     = Inr (RetPair (Some ''Title'') (Some 1),
            Element ''zim-tree'' Map.empty (Some ''rest'') None [para_elem ''x''])"
    using pop_heading_cases[of "page_of [?h, para_elem ''x'']" ?h "[para_elem ''x'']" 1 1] ws
    by (simp add: page_of_def has_content_def attr_int_def)
  have b: "pop_heading 1 (Element ''zim-tree'' Map.empty (Some ''intro'') None [heading_elem (VInt 1) ''Title''])
     = Inr (RetPair None None,
            Element ''zim-tree'' Map.empty (Some ''intro'') None [heading_elem (VInt 1) ''Title''])"
    using pop_heading_cases[of "Element ''zim-tree'' Map.empty (Some ''intro'') None [heading_elem (VInt 1) ''Title'']"
        undefined undefined 0 1] ws
    by (simp add: has_content_def)
  have c: "pop_heading 1 (page_of [para_elem ''x'']) = Inr (RetPair None None, page_of [para_elem ''x''])"
    using pop_heading_cases[of "page_of [para_elem ''x'']" "para_elem ''x''" "[]" 0 1]
    by (simp add: page_of_def para_elem_def)
  have d: "pop_heading 1 (page_of [heading_elem (VInt 2) ''Title''])
     = Inr (RetPair None None, page_of [heading_elem (VInt 2) ''Title''])"
    using pop_heading_cases[of "page_of [heading_elem (VInt 2) ''Title'']"
        "heading_elem (VInt 2) ''Title''" "[]" 2 1]
    by (simp add: page_of_def heading_elem_def attr_int_def)
  from a b c d show ?thesis by blast
qed

text \<open>
  A heading followed by a newline, as every parsed page has it: the heading is removed
  and its trailing newline is dropped, the root text stays absent.
\<close>

theorem pop_heading_tail_counterexample:
  "e_tail (heading_elem (VInt 1) ''Title'') = Some [nl]
   \<and> pop_heading (- 1) (page_of [heading_elem (VInt 1) ''Title'', para_elem ''x''])
     = Inr (RetPair (Some ''Title'') (Some 1), page_of [para_elem ''x''])"
  by (simp add: pop_heading_def page_of_def heading_elem_def has_content_def attr_int_def
      isspace_def is_ws_def nl_def)

section \<open>Early stop of a visitor\<close>

lemma visit_node_no_skip: "snd (visit_node v t s) \<noteq> Some VisitorSkip"
  by (cases t) (auto simp: catch_skip_def split: prod.splits option.splits exc.splits)

text \<open>\<^verbatim>\<open>ParseTree.visit\<close> lets neither control signal reach its caller.\<close>

lemma visit_no_signal:
  "snd (visit v t s) \<noteq> Some VisitorStop \<and> snd (visit v t s) \<noteq> Some VisitorSkip"
  using visit_node_no_skip[of v t s]
  by (auto simp: visit_def split: prod.splits option.splits exc.splits)

text \<open>
  Claim C6 at a page of two paragraphs, with a dumper that raises \<^verbatim>\<open>VisitorStop\<close> at
  the third node it is handed (the second paragraph).  \<^verbatim>\<open>ParseTree.visit\<close> itself ends
  without an exception, but the frame that \<^verbatim>\<open>start\<close> pushed for the root is still open,
  with the output so far in it, and \<^verbatim>\<open>dump\<close> fails its assertion
  \<^verbatim>\<open>len(self._context) == 1\<close> instead of returning that output.  A dump that is not
  stopped returns both lines.
\<close>

theorem dump_stopped_at_third_node:
  "snd (visit (stopping_visitor 3 text_class) two_paras \<lparr>ctx = [(None, None, [])], seen = 0\<rparr>) = None
   \<and> map (\<lambda>f. snd (snd f))
        (ctx (fst (visit (stopping_visitor 3 text_class) two_paras \<lparr>ctx = [(None, None, [])], seen = 0\<rparr>)))
       = [[''a'' @ [nl]], []]
   \<and> dump (stopping_visitor 3 text_class) \<lparr>ctx = [], seen = 0\<rparr> two_paras = Inl AssertionError
   \<and> dump (dumper_visitor text_class) \<lparr>ctx = []\<rparr> two_paras = Inr [''a'' @ [nl], ''b'' @ [nl]]"
  by (simp add: dump_def visit_def two_paras_def page_of_def para_elem_def catch_skip_def
      stopping_visitor_def dumper_visitor_def text_class_def d_start_def d_append_def d_end_def
      d_text_def extend_top_def extend_opt_def opt_text_def FORMATTEDTEXT_def get_lines_def
      is_linebreak_def nl_def)

section \<open>Concatenating trees\<close>

lemma merge_text_children: "n_children (merge_text myroot otherroot h a) = n_children (h a)"
  by (simp add: merge_text_def Let_def split: list.splits)

lemma append_all_root:
  "n_children (foldl (\<lambda>h' e. append_child m e h') h cs m) = n_children (h m) @ cs"
  by (induction cs arbitrary: h) (simp_all add: append_child_def)

lemma append_all_other:
  "a \<noteq> m \<Longrightarrow> foldl (\<lambda>h' e. append_child m e h') h cs a = h a"
  by (induction cs arbitrary: h) (simp_all add: append_child_def)

text \<open>
  Claim C10.  \<^verbatim>\<open>extend\<close> returns the tree it was called on, whose root now lists its old
  children followed by the children of the other root, as the same references; the other
  root, when it is another element, still lists all its children, and the child list of no
  other element changes.
\<close>

theorem extend_shares_children:
  "snd (extend myroot otherroot h) = myroot
   \<and> n_children (fst (extend myroot otherroot h) myroot)
       = n_children (h myroot) @ n_children (h otherroot)
   \<and> (a \<noteq> myroot \<longrightarrow> n_children (fst (extend myroot otherroot h) a) = n_children (h a))
   \<and> (myroot \<noteq> otherroot \<longrightarrow>
        n_children (fst (extend myroot otherroot h) otherroot) = n_children (h otherroot))"
  by (simp add: extend_def Let_def append_all_root append_all_other merge_text_children)

theorem extend_shares_children_witness:
  "snd (extend 0 2 two_trees) = 0
   \<and> n_children (fst (extend 0 2 two_trees) 0) = [1, 3, 4]
   \<and> n_children (fst (extend 0 2 two_trees) 2) = [3, 4]
   \<and> n_tail (fst (extend 0 2 two_trees) 1) = Some ''t''"
proof -
  have c: "n_children (two_trees 0) = [1]" "n_children (two_trees 2) = [3, 4]"
    by (simp_all add: two_trees_def new_node_def)
  have "(0::nat) \<noteq> 2" "(2::nat) \<noteq> 0" by simp_all
  with extend_shares_children[of 0 2 two_trees 2] c
  have a: "snd (extend 0 2 two_trees) = 0"
      "n_children (fst (extend 0 2 two_trees) 0) = [1, 3, 4]"
      "n_children (fst (extend 0 2 two_trees) 2) = [3, 4]"
    by simp_all
  have "fst (extend 0 2 two_trees) 1 = merge_text 0 2 two_trees 1"
    by (simp add: extend_def Let_def append_all_other)
  then have "n_tail (fst (extend 0 2 two_trees) 1) = Some ''t''"
    by (simp add: merge_text_def two_trees_def new_node_def truthy_def or_empty_def)
  with a show ?thesis by simp
qed

section \<open>The normalizing builder\<close>

lemmas builder_defs = build_def page_def init_builder_def b_start_def b_end_def b_data_add_def
  b_close_def flush_def last_tag_def fix_trailing_def fix_prefix_def assign_text_def
  need_eol_start_def need_eol_end_def fix_attrib_def has_key_def or_dict_def purge_def
  append_to_previous_def append_child_def new_node_def inline_tags_def count_eol_def
  rstrip_nl_def strip_nl_def startswith_def has_content_def only_space_def or_empty_def
  isspace_def is_ws_def nl_def state_after_def Let_def

subsection \<open>Empty elements\<close>

text \<open>
  Claim C2 at an empty \<^verbatim>\<open>emphasis\<close> that is the first child of a paragraph with text
  before it.  With an earlier sibling the repair works: the empty element is dropped,
  whitespace it held joins the sibling's tail, the text around it is kept, and an empty
  \<^verbatim>\<open>object\<close> stays.  Without an earlier sibling \<^verbatim>\<open>end\<close> takes the parent's text back
  into the buffer but leaves \<^verbatim>\<open>_tail\<close> set, so the next flush writes the text into the
  tail of the still open parent: here the paragraph then counts as empty itself and is
  dropped with the text \<^verbatim>\<open>x\<close>, and with more content the build stops on the assertion
  \<^verbatim>\<open>internal error (tail)\<close>.
\<close>

theorem empty_element_first_child:
  "build (page [Start ''p'' None, Data ''x'', End ''p''])
     = Inr (Some (Element ''zim-tree'' Map.empty None None
         [Element ''p'' Map.empty (Some (''x'' @ [nl])) (Some [nl]) []]))
   \<and> build (page [Start ''p'' None, Data ''x'', Start ''emphasis'' None, End ''emphasis'', End ''p''])
     = Inr (Some (Element ''zim-tree'' Map.empty None None []))
   \<and> build (page [Start ''p'' None, Data ''x'', Start ''emphasis'' None, Data '' '', End ''emphasis'',
                   End ''p''])
     = Inr (Some (Element ''zim-tree'' Map.empty None None []))
   \<and> build (page [Start ''p'' None, Data ''x'', Start ''emphasis'' None, End ''emphasis'', Data ''y'',
                   Start ''strong'' None, Data ''b'', End ''strong'', End ''p''])
     = Inl AssertionError
   \<and> build (page [Start ''p'' None, Start ''strong'' None, Data ''a'', End ''strong'', Data ''x'',
                   Start ''emphasis'' None, Data '' '', End ''emphasis'', Data ''y'', End ''p''])
     = Inr (Some (Element ''zim-tree'' Map.empty None None
         [Element ''p'' Map.empty None (Some [nl])
           [Element ''strong'' Map.empty (Some ''a'') (Some (''x y'' @ [nl])) []]]))
   \<and> build (page [Start ''p'' None, Start ''strong'' None, Data ''a'', End ''strong'', Data ''x'',
                   Start ''object'' None, End ''object'', Data ''y'', End ''p''])
     = Inr (Some (Element ''zim-tree'' Map.empty None None
         [Element ''p'' Map.empty None (Some [nl])
           [Element ''strong'' Map.empty (Some ''a'') (Some ''x'') [],
            Element ''object'' Map.empty None (Some (''y'' @ [nl])) []]]))"
  by (simp add: builder_defs)

section \<open>Newlines at the end of a text\<close>








lemma rstrip_nl_pad: "rstrip_nl (pad_eol n t) = rstrip_nl t"
proof -
  have "dropWhile (\<lambda>c. c = nl) (replicate k nl @ xs) = dropWhile (\<lambda>c. c = nl) xs" for k xs
    by (induction k) simp_all
  then show ?thesis by (simp add: rstrip_nl_def pad_eol_def)
qed




section \<open>Splitting an inline element\<close>

subsection \<open>The loop over the lines, on the store\<close>

lemma open_posD:
  assumes "open_pos b parent rest"
  obtains l pre where "b_last b = Some l" "b_stack b = l # parent # rest"
    "n_children (heap b parent) = pre @ [l]" "l \<notin> set pre" "distinct pre"
    "parent \<notin> set pre" "parent \<noteq> l" "\<forall>c\<in>set pre. c < fresh b" "l < fresh b" "parent < fresh b"
    "n_text (heap b l) = None" "n_tail (heap b l) = None"
proof -
  from assms obtain l where l: "b_last b = Some l" "b_stack b = l # parent # rest"
    "n_children (heap b parent) \<noteq> []" "last (n_children (heap b parent)) = l"
    "distinct (n_children (heap b parent))" "parent \<notin> set (n_children (heap b parent))"
    "\<forall>c\<in>set (n_children (heap b parent)). c < fresh b" "parent < fresh b"
    "n_text (heap b l) = None" "n_tail (heap b l) = None"
    by (auto simp: open_pos_def list_all_iff split: option.splits)
  define pre where "pre = butlast (n_children (heap b parent))"
  have cs: "n_children (heap b parent) = pre @ [l]"
    unfolding pre_def using l(3,4) by (metis append_butlast_last_id)
  have "distinct (pre @ [l])" "parent \<notin> set (pre @ [l])" "\<forall>c\<in>set (pre @ [l]). c < fresh b"
    using l(5,6,7) unfolding cs by simp_all
  then have d: "l \<notin> set pre" "distinct pre" "parent \<notin> set pre" "parent \<noteq> l"
      "\<forall>c\<in>set pre. c < fresh b" "l < fresh b"
    by auto
  show ?thesis
    by (rule that[OF l(1,2) cs d l(8,9,10)])
qed

lemma open_posI:
  assumes "b_last b = Some l" "b_stack b = l # parent # rest"
    "n_children (heap b parent) = pre @ [l]" "l \<notin> set pre" "distinct pre"
    "parent \<notin> set pre" "parent \<noteq> l" "\<forall>c\<in>set pre. c < fresh b" "l < fresh b" "parent < fresh b"
    "n_text (heap b l) = None" "n_tail (heap b l) = None"
  shows "open_pos b parent rest"
  using assms by (auto simp: open_pos_def list_all_iff)

lemma map_upd_notin: "a \<notin> set xs \<Longrightarrow> map (h(a := v)) xs = map h xs"
  by (induction xs) auto

lemma split_step_row_nonblank:
  assumes op: "open_pos b parent rest" and nb: "\<not> blank line"
  shows "\<exists>b'. split_loop (line # ls) b = split_loop ls b' \<and> open_pos b' parent rest
          \<and> row_of (heap b') parent = split_step line (row_of (heap b) parent)
          \<and> b_data b' = b_data b \<and> b_tail b' = b_tail b \<and> b_seen_eol b' = b_seen_eol b
          \<and> n_tag (heap b' (the (b_last b'))) = n_tag (heap b (the (b_last b)))
          \<and> n_attrib (heap b' (the (b_last b'))) = n_attrib (heap b (the (b_last b)))"
proof -
  from op obtain l pre where p: "b_last b = Some l" "b_stack b = l # parent # rest"
    "n_children (heap b parent) = pre @ [l]" "l \<notin> set pre" "distinct pre"
    "parent \<notin> set pre" "parent \<noteq> l" "\<forall>c\<in>set pre. c < fresh b" "l < fresh b" "parent < fresh b"
    "n_text (heap b l) = None" "n_tail (heap b l) = None"
    by (rule open_posD)
  let ?new = "fresh b"
  let ?h1 = "(heap b)(l := (heap b l)\<lparr>n_text := Some line, n_tail := Some [nl]\<rparr>)"
  let ?h2 = "?h1(?new := new_node (n_tag (?h1 l)) (n_attrib (?h1 l)))"
  let ?b' = "b\<lparr>heap := append_child parent ?new ?h2, fresh := Suc ?new,
                b_last := Some ?new, b_stack := ?new # parent # rest\<rparr>"
  have new: "?new \<notin> set pre" "?new \<noteq> l" "?new \<noteq> parent"
    using p(8,9,10) by auto
  have step: "split_loop (line # ls) b = split_loop ls ?b'"
    using p nb by (simp add: blank_def Let_def)
  have ch: "n_children (heap ?b' parent) = (pre @ [l]) @ [?new]"
    using p new by (simp add: append_child_def)
  have hp: "n_text (heap ?b' parent) = n_text (heap b parent)"
    using p new by (simp add: append_child_def)
  have hn: "heap ?b' ?new = new_node (n_tag (heap b l)) (n_attrib (heap b l))"
    using new by (simp add: append_child_def)
  have hl: "heap ?b' l = (heap b l)\<lparr>n_text := Some line, n_tail := Some [nl]\<rparr>"
    using p new by (simp add: append_child_def)
  have hpre: "map (heap ?b') pre = map (heap b) pre"
    using p(4,6) new(1) by (simp add: append_child_def map_upd_notin)
  have op': "open_pos ?b' parent rest"
  proof (rule open_posI[where l = "?new" and pre = "pre @ [l]"])
    show "n_children (heap ?b' parent) = (pre @ [l]) @ [?new]" by (rule ch)
    show "n_text (heap ?b' ?new) = None" "n_tail (heap ?b' ?new) = None"
      using hn by (simp_all add: new_node_def)
  qed (use p new in \<open>auto simp: less_Suc_eq\<close>)
  have row: "row_of (heap ?b') parent = split_step line (row_of (heap b) parent)"
    using nb p(3) ch hp hn hl hpre
    by (simp add: row_of_def split_step_def butlast_append)
  show ?thesis
    using step op' row p(1) hn by (intro exI[of _ ?b']) (simp add: new_node_def)
qed

lemma split_step_row_blank:
  assumes op: "open_pos b parent rest" and bl: "blank line"
  shows "\<exists>b'. split_loop (line # ls) b = split_loop ls b' \<and> open_pos b' parent rest
          \<and> row_of (heap b') parent = split_step line (row_of (heap b) parent)
          \<and> b_data b' = b_data b \<and> b_tail b' = b_tail b \<and> b_seen_eol b' = b_seen_eol b
          \<and> n_tag (heap b' (the (b_last b'))) = n_tag (heap b (the (b_last b)))
          \<and> n_attrib (heap b' (the (b_last b'))) = n_attrib (heap b (the (b_last b)))"
proof -
  from op obtain l pre where p: "b_last b = Some l" "b_stack b = l # parent # rest"
    "n_children (heap b parent) = pre @ [l]" "l \<notin> set pre" "distinct pre"
    "parent \<notin> set pre" "parent \<noteq> l" "\<forall>c\<in>set pre. c < fresh b" "l < fresh b" "parent < fresh b"
    "n_text (heap b l) = None" "n_tail (heap b l) = None"
    by (rule open_posD)
  show ?thesis
  proof (cases "pre = []")
    case True
    let ?h = "(heap b)(parent := (heap b parent)\<lparr>n_text := Some (or_empty (n_text (heap b parent)) @ line @ [nl])\<rparr>)"
    let ?b' = "b\<lparr>heap := ?h\<rparr>"
    have step: "split_loop (line # ls) b = split_loop ls ?b'"
      using p bl True by (auto simp: blank_def append_to_previous_def Let_def)
    have op': "open_pos ?b' parent rest"
      by (rule open_posI[where l = l and pre = pre]) (use p in auto)
    have row: "row_of (heap ?b') parent = split_step line (row_of (heap b) parent)"
      using bl p True by (simp add: row_of_def split_step_def)
    show ?thesis
      using step op' row p by (intro exI[of _ ?b']) simp
  next
    case False
    then obtain pre' c where pre: "pre = pre' @ [c]"
      by (metis append_butlast_last_id)
    have c: "c \<noteq> l" "c \<noteq> parent" "c \<notin> set pre'"
      using p(4,5,6) pre by auto
    let ?h = "(heap b)(c := (heap b c)\<lparr>n_tail := Some (or_empty (n_tail (heap b c)) @ line @ [nl])\<rparr>)"
    let ?b' = "b\<lparr>heap := ?h\<rparr>"
    have step: "split_loop (line # ls) b = split_loop ls ?b'"
      using p bl pre by (auto simp: blank_def append_to_previous_def Let_def butlast_append)
    have op': "open_pos ?b' parent rest"
      by (rule open_posI[where l = l and pre = pre]) (use p c in auto)
    have "map ?h pre' = map (heap b) pre'"
      using c(3) by (rule map_upd_notin)
    then have row: "row_of (heap ?b') parent = split_step line (row_of (heap b) parent)"
      using bl p pre c by (simp add: row_of_def split_step_def butlast_append)
    show ?thesis
      using step op' row p c by (intro exI[of _ ?b']) simp
  qed
qed

lemma split_loop_row:
  "open_pos b parent rest \<Longrightarrow>
   \<exists>b'. split_loop ls b = Inr b' \<and> open_pos b' parent rest
     \<and> row_of (heap b') parent = foldl (\<lambda>r line. split_step line r) (row_of (heap b) parent) ls
     \<and> b_data b' = b_data b \<and> b_tail b' = b_tail b \<and> b_seen_eol b' = b_seen_eol b
     \<and> n_tag (heap b' (the (b_last b'))) = n_tag (heap b (the (b_last b)))
     \<and> n_attrib (heap b' (the (b_last b'))) = n_attrib (heap b (the (b_last b)))"
proof (induction ls arbitrary: b)
  case Nil
  then show ?case by simp
next
  case (Cons line ls)
  obtain b1 where b1: "split_loop (line # ls) b = split_loop ls b1" "open_pos b1 parent rest"
      "row_of (heap b1) parent = split_step line (row_of (heap b) parent)"
      "b_data b1 = b_data b" "b_tail b1 = b_tail b" "b_seen_eol b1 = b_seen_eol b"
      "n_tag (heap b1 (the (b_last b1))) = n_tag (heap b (the (b_last b)))"
      "n_attrib (heap b1 (the (b_last b1))) = n_attrib (heap b (the (b_last b)))"
    using split_step_row_nonblank[OF Cons.prems, of line ls]
      split_step_row_blank[OF Cons.prems, of line ls]
    by (cases "blank line") blast+
  from Cons.IH[OF b1(2)] obtain b' where b': "split_loop ls b1 = Inr b'" "open_pos b' parent rest"
      "row_of (heap b') parent = foldl (\<lambda>r line. split_step line r) (row_of (heap b1) parent) ls"
      "b_data b' = b_data b1" "b_tail b' = b_tail b1" "b_seen_eol b' = b_seen_eol b1"
      "n_tag (heap b' (the (b_last b'))) = n_tag (heap b1 (the (b_last b1)))"
      "n_attrib (heap b' (the (b_last b'))) = n_attrib (heap b1 (the (b_last b1)))"
    by blast
  show ?case
    using b1 b' by (intro exI[of _ b']) simp
qed

subsection \<open>A flush into an open inline element\<close>

lemma open_pos_cong:
  "heap b1 = heap b \<Longrightarrow> fresh b1 = fresh b \<Longrightarrow> b_stack b1 = b_stack b \<Longrightarrow> b_last b1 = b_last b
   \<Longrightarrow> open_pos b1 parent rest = open_pos b parent rest"
  by (simp add: open_pos_def split: option.splits)

lemma flush_inline:
  assumes op: "open_pos b parent rest" and nt: "\<not> b_tail b"
    and tg: "n_tag (heap b (the (b_last b))) \<in> set inline_tags"
    and ft: "fix_trailing need (concat (b_data b)) (b_seen_eol b) = (t1, e1)" and t1: "t1 \<noteq> []"
  shows "\<exists>b' l2. flush need b = Inr b'
     \<and> row_of (heap b') parent = split_siblings (flush_lines t1 e1) (row_of (heap b) parent)
     \<and> b_data b' = (if e1 \<noteq> 0 then [replicate (nat e1) nl] else []) \<and> b_seen_eol b' = 0
     \<and> \<not> b_tail b' \<and> b_last b' = Some l2 \<and> b_stack b' = l2 # parent # rest
     \<and> n_text (heap b' l2) = Some (last (flush_lines t1 e1)) \<and> l2 < fresh b'
     \<and> n_tag (heap b' l2) = n_tag (heap b (the (b_last b)))
     \<and> n_attrib (heap b' l2) = n_attrib (heap b (the (b_last b)))"
proof -
  from op obtain l where l: "b_last b = Some l"
    by (rule open_posD)
  define b1 where "b1 = (if e1 \<noteq> 0 then b\<lparr>b_seen_eol := e1\<rparr>\<lparr>b_data := [replicate (nat e1) nl], b_seen_eol := 0\<rparr>
                          else b\<lparr>b_seen_eol := e1\<rparr>\<lparr>b_data := []\<rparr>)"
  define lines where "lines = flush_lines t1 e1"
  have b1: "heap b1 = heap b" "fresh b1 = fresh b" "b_stack b1 = b_stack b" "b_last b1 = b_last b"
    "b_tail b1 = b_tail b" "b_data b1 = (if e1 \<noteq> 0 then [replicate (nat e1) nl] else [])"
    "b_seen_eol b1 = 0"
    by (simp_all add: b1_def)
  have op1: "open_pos b1 parent rest"
    using op open_pos_cong[OF b1(1-4)] by simp
  from split_loop_row[OF op1, of "butlast lines"]
  obtain b2 where b2: "split_loop (butlast lines) b1 = Inr b2" "open_pos b2 parent rest"
    "row_of (heap b2) parent = foldl (\<lambda>r line. split_step line r) (row_of (heap b1) parent) (butlast lines)"
    "b_data b2 = b_data b1" "b_tail b2 = b_tail b1" "b_seen_eol b2 = b_seen_eol b1"
    "n_tag (heap b2 (the (b_last b2))) = n_tag (heap b1 (the (b_last b1)))"
    "n_attrib (heap b2 (the (b_last b2))) = n_attrib (heap b1 (the (b_last b1)))"
    by blast
  from b2(2) obtain l2 pre where p: "b_last b2 = Some l2" "b_stack b2 = l2 # parent # rest"
    "n_children (heap b2 parent) = pre @ [l2]" "l2 \<notin> set pre" "distinct pre"
    "parent \<notin> set pre" "parent \<noteq> l2" "\<forall>c\<in>set pre. c < fresh b2" "l2 < fresh b2" "parent < fresh b2"
    "n_text (heap b2 l2) = None" "n_tail (heap b2 l2) = None"
    by (rule open_posD)
  let ?b' = "b2\<lparr>heap := (heap b2)(l2 := (heap b2 l2)\<lparr>n_text := Some (last lines)\<rparr>)\<rparr>"
  have fl: "flush need b = Inr ?b'"
    using nt l tg ft t1 b2(1) p(1,11)
    by (simp add: flush_def last_tag_def fix_prefix_def assign_text_def Let_def b1_def lines_def
        flush_lines_def)
  have row: "row_of (heap ?b') parent = split_siblings lines (row_of (heap b) parent)"
  proof -
    obtain pt sibs where f: "foldl (\<lambda>r line. split_step line r) (row_of (heap b) parent) (butlast lines) = (pt, sibs)"
      by (cases "foldl (\<lambda>r line. split_step line r) (row_of (heap b) parent) (butlast lines)")
    from b2(3) f b1(1) p(3) have "pt = n_text (heap b2 parent)" "sibs = map (heap b2) pre @ [heap b2 l2]"
      by (simp_all add: row_of_def)
    then show ?thesis
      using f p(3,4,7) by (simp add: row_of_def split_siblings_def map_upd_notin)
  qed
  show ?thesis
    using fl row b2 b1 p l nt
    by (intro exI[of _ ?b'] exI[of _ l2]) (simp add: lines_def)
qed


subsection \<open>The lines of a text\<close>

lemma split_nl_nonempty: "split_nl s \<noteq> []"
  by (induction s) (auto split: list.splits)

lemma split_nl_no_newline: "x \<in> set (split_nl s) \<Longrightarrow> nl \<notin> set x"
proof (induction s arbitrary: x)
  case Nil
  then show ?case by simp
next
  case (Cons c s)
  show ?case
  proof (cases "c = nl")
    case True
    with Cons show ?thesis by auto
  next
    case False
    obtain l ls where sp: "split_nl s = l # ls"
      using split_nl_nonempty[of s] by (cases "split_nl s") auto
    with Cons.prems False have "x = c # l \<or> x \<in> set ls" by simp
    then show ?thesis
      using Cons.IH[of l] Cons.IH[of x] sp False by auto
  qed
qed

lemma blank_ws: "blank x \<Longrightarrow> list_all is_ws x"
  by (auto simp: blank_def isspace_def)

lemma rstrip_nl_id: "count_eol t = 0 \<Longrightarrow> rstrip_nl t = t"
  by (cases "rev t") (auto simp: count_eol_def rstrip_nl_def split: if_splits)

lemma flush_lines_fix:
  assumes "t \<noteq> []"
  shows "flush_lines (fst (fix_trailing need t eol)) (snd (fix_trailing need t eol)) = split_nl (rstrip_nl t)"
proof (cases "need > int (count_eol t)")
  case True
  then have "rstrip_nl (t @ replicate (nat (need - int (count_eol t))) nl) = rstrip_nl t"
    using rstrip_nl_pad[of "nat need" t] by (simp add: pad_eol_def nat_diff_distrib)
  with True assms show ?thesis
    by (auto simp: flush_lines_def fix_trailing_def Let_def)
next
  case False
  with assms show ?thesis
    by (auto simp: flush_lines_def fix_trailing_def Let_def rstrip_nl_id)
qed

subsection \<open>The siblings that replace the element\<close>

text \<open>What the fold of \<open>split_step\<close> keeps true of a row: behind the first \<open>n\<close> siblings
  stands the group \<open>g\<close> that replaces the element \<open>e\<close>.\<close>

lemma split_fold_group:
  assumes e: "n_text e = None" "n_tail e = None"
  shows "\<exists>pt' p g. foldl (\<lambda>r line. split_step line r) (pt, pre @ [e]) ls = (pt', p @ g)
           \<and> length p = length pre \<and> g \<noteq> []
           \<and> map n_text (butlast g) = map Some (filter (\<lambda>x. \<not> blank x) ls)
           \<and> (\<forall>s\<in>set g. n_tag s = n_tag e \<and> n_attrib s = n_attrib e)
           \<and> (\<forall>s\<in>set (butlast g). \<exists>w. n_tail s = Some (nl # w) \<and> list_all is_ws w)
           \<and> n_text (last g) = None \<and> n_tail (last g) = None"
proof (induction ls rule: rev_induct)
  case Nil
  show ?case
    using e by (intro exI[of _ pt] exI[of _ pre] exI[of _ "[e]"]) simp
next
  case (snoc x ls)
  then obtain pt' p g where IH:
      "foldl (\<lambda>r line. split_step line r) (pt, pre @ [e]) ls = (pt', p @ g)"
      "length p = length pre" "g \<noteq> []"
      "map n_text (butlast g) = map Some (filter (\<lambda>x. \<not> blank x) ls)"
      "\<forall>s\<in>set g. n_tag s = n_tag e \<and> n_attrib s = n_attrib e"
      "\<forall>s\<in>set (butlast g). \<exists>w. n_tail s = Some (nl # w) \<and> list_all is_ws w"
      "n_text (last g) = None" "n_tail (last g) = None"
    by blast
  obtain g0 sl where g: "g = g0 @ [sl]"
    using IH(3) by (metis append_butlast_last_id)
  have sl: "n_tag sl = n_tag e" "n_attrib sl = n_attrib e" "n_text sl = None" "n_tail sl = None"
    using IH(5,7,8) g by simp_all
  have fold: "foldl (\<lambda>r line. split_step line r) (pt, pre @ [e]) (ls @ [x])
                = split_step x (pt', p @ g0 @ [sl])"
    using IH(1) g by simp
  show ?case
  proof (cases "blank x")
    case False
    let ?g = "g0 @ [sl\<lparr>n_text := Some x, n_tail := Some [nl]\<rparr>, new_node (n_tag sl) (n_attrib sl)]"
    have "split_step x (pt', p @ g0 @ [sl]) = (pt', p @ ?g)"
      using False by (simp add: split_step_def butlast_append)
    then have "foldl (\<lambda>r line. split_step line r) (pt, pre @ [e]) (ls @ [x]) = (pt', p @ ?g)"
      unfolding fold .
    moreover note IH(2)
    moreover have "?g \<noteq> []" by simp
    moreover have "map n_text (butlast ?g) = map Some (filter (\<lambda>x. \<not> blank x) (ls @ [x]))"
      using False IH(4) g by (simp add: butlast_append)
    moreover have "\<forall>s\<in>set ?g. n_tag s = n_tag e \<and> n_attrib s = n_attrib e"
      using IH(5) g sl by (auto simp: new_node_def)
    moreover have "\<forall>s\<in>set (butlast ?g). \<exists>w. n_tail s = Some (nl # w) \<and> list_all is_ws w"
      using IH(6) g by (auto simp: butlast_append)
    moreover have "n_text (last ?g) = None" "n_tail (last ?g) = None"
      by (simp_all add: new_node_def)
    ultimately show ?thesis
      by blast
  next
    case True
    have filt: "filter (\<lambda>x. \<not> blank x) (ls @ [x]) = filter (\<lambda>x. \<not> blank x) ls"
      using True by simp
    show ?thesis
    proof (cases "g0 = []")
      case g0: False
      then obtain g1 c where g1: "g0 = g1 @ [c]"
        by (metis append_butlast_last_id)
      from IH(6) g g1 obtain w where w: "n_tail c = Some (nl # w)" "list_all is_ws w"
        by (auto simp: butlast_append)
      let ?c = "c\<lparr>n_tail := Some (or_empty (n_tail c) @ x @ [nl])\<rparr>"
      let ?g = "g1 @ [?c, sl]"
      have "split_step x (pt', p @ g0 @ [sl]) = (pt', p @ ?g)"
        using True g1 by (simp add: split_step_def butlast_append)
      then have "foldl (\<lambda>r line. split_step line r) (pt, pre @ [e]) (ls @ [x]) = (pt', p @ ?g)"
        unfolding fold .
      moreover note IH(2)
      moreover have "?g \<noteq> []" by simp
      moreover have "map n_text (butlast ?g) = map Some (filter (\<lambda>x. \<not> blank x) (ls @ [x]))"
        using IH(4) g g1 filt by (simp add: butlast_append)
      moreover have "\<forall>s\<in>set ?g. n_tag s = n_tag e \<and> n_attrib s = n_attrib e"
        using IH(5) g g1 by auto
      moreover have "n_tail ?c = Some (nl # (w @ x @ [nl]))" "list_all is_ws (w @ x @ [nl])"
        using w blank_ws[OF True] by (simp_all add: or_empty_def is_ws_def nl_def)
      then have "\<forall>s\<in>set (butlast ?g). \<exists>w. n_tail s = Some (nl # w) \<and> list_all is_ws w"
        using IH(6) g g1 by (auto simp: butlast_append)
      moreover have "n_text (last ?g) = None" "n_tail (last ?g) = None"
        using sl by simp_all
      ultimately show ?thesis
        by blast
    next
      case g0: True
      show ?thesis
      proof (cases "p = []")
        case True
        have "split_step x (pt', p @ g0 @ [sl]) = (Some (or_empty pt' @ x @ [nl]), p @ g)"
          using \<open>blank x\<close> g0 True g by (simp add: split_step_def)
        then have "foldl (\<lambda>r line. split_step line r) (pt, pre @ [e]) (ls @ [x])
                     = (Some (or_empty pt' @ x @ [nl]), p @ g)"
          unfolding fold .
        then show ?thesis
          using IH(2-8) unfolding filt by blast
      next
        case False
        then obtain p1 c where p1: "p = p1 @ [c]"
          by (metis append_butlast_last_id)
        let ?p = "p1 @ [c\<lparr>n_tail := Some (or_empty (n_tail c) @ x @ [nl])\<rparr>]"
        have "split_step x (pt', p @ g0 @ [sl]) = (pt', ?p @ g)"
          using \<open>blank x\<close> g0 p1 g by (simp add: split_step_def butlast_append)
        then have "foldl (\<lambda>r line. split_step line r) (pt, pre @ [e]) (ls @ [x]) = (pt', ?p @ g)"
          unfolding fold .
        moreover have "length ?p = length pre"
          using IH(2) p1 by simp
        ultimately show ?thesis
          using IH(3-8) unfolding filt by blast
      qed
    qed
  qed
qed

lemma split_siblings_group:
  assumes e: "n_text e = None" "n_tail e = None"
  shows "\<exists>pt' p g. split_siblings lines (pt, pre @ [e]) = (pt', p @ g) \<and> length p = length pre
     \<and> map n_text g = map Some (filter (\<lambda>x. \<not> blank x) (butlast lines) @ [last lines])
     \<and> (\<forall>s\<in>set g. n_tag s = n_tag e \<and> n_attrib s = n_attrib e)
     \<and> (\<forall>s\<in>set (butlast g). \<exists>w. n_tail s = Some (nl # w) \<and> list_all is_ws w)
     \<and> n_tail (last g) = None"
proof -
  from split_fold_group[OF e, of pt pre "butlast lines"]
  obtain pt' p g where f:
      "foldl (\<lambda>r line. split_step line r) (pt, pre @ [e]) (butlast lines) = (pt', p @ g)"
      "length p = length pre" "g \<noteq> []"
      "map n_text (butlast g) = map Some (filter (\<lambda>x. \<not> blank x) (butlast lines))"
      "\<forall>s\<in>set g. n_tag s = n_tag e \<and> n_attrib s = n_attrib e"
      "\<forall>s\<in>set (butlast g). \<exists>w. n_tail s = Some (nl # w) \<and> list_all is_ws w"
      "n_text (last g) = None" "n_tail (last g) = None"
    by blast
  obtain g0 sl where g: "g = g0 @ [sl]"
    using f(3) by (metis append_butlast_last_id)
  let ?g = "g0 @ [sl\<lparr>n_text := Some (last lines)\<rparr>]"
  have 1: "split_siblings lines (pt, pre @ [e]) = (pt', p @ ?g)"
    using f(1) g by (simp add: split_siblings_def butlast_append)
  have 2: "map n_text ?g = map Some (filter (\<lambda>x. \<not> blank x) (butlast lines) @ [last lines])"
    using f(4) g by simp
  have 3: "\<forall>s\<in>set ?g. n_tag s = n_tag e \<and> n_attrib s = n_attrib e"
    using f(5) g by auto
  have 4: "\<forall>s\<in>set (butlast ?g). \<exists>w. n_tail s = Some (nl # w) \<and> list_all is_ws w"
    using f(6) g by simp
  have 5: "n_tail (last ?g) = None"
    using f(8) g by simp
  from 1 f(2) 2 3 4 5 show ?thesis by blast
qed

subsection \<open>The flush as a whole\<close>

lemma fix_trailing_nonempty: "t \<noteq> [] \<Longrightarrow> fst (fix_trailing need t eol) \<noteq> []"
  by (simp add: fix_trailing_def Let_def)

lemma flush_inline_group:
  assumes op: "open_pos b parent rest" and nt: "\<not> b_tail b" and l: "b_last b = Some l"
    and tg: "n_tag (heap b l) \<in> set inline_tags" and t: "concat (b_data b) \<noteq> []"
  shows "\<exists>b' p g. flush need b = Inr b'
        \<and> row_of (heap b') parent
            = split_siblings (split_nl (rstrip_nl (concat (b_data b)))) (row_of (heap b) parent)
        \<and> map (heap b') (n_children (heap b' parent)) = p @ g
        \<and> length p + 1 = length (n_children (heap b parent))
        \<and> map n_text g = map Some (filter (\<lambda>x. \<not> blank x) (butlast (split_nl (rstrip_nl (concat (b_data b)))))
                                    @ [last (split_nl (rstrip_nl (concat (b_data b))))])
        \<and> (\<forall>s\<in>set g. n_tag s = n_tag (heap b l) \<and> n_attrib s = n_attrib (heap b l))
        \<and> (\<forall>s\<in>set g. \<forall>x. n_text s = Some x \<longrightarrow> nl \<notin> set x)
        \<and> (\<forall>s\<in>set (butlast g). \<exists>w. n_tail s = Some (nl # w) \<and> list_all is_ws w)
        \<and> n_tail (last g) = None"
proof -
  let ?t = "concat (b_data b)"
  let ?lines = "split_nl (rstrip_nl ?t)"
  from op l obtain pre where p: "n_children (heap b parent) = pre @ [l]"
    "n_text (heap b l) = None" "n_tail (heap b l) = None"
    by (auto elim: open_posD)
  have tg': "n_tag (heap b (the (b_last b))) \<in> set inline_tags"
    using tg l by simp
  obtain t1 e1 where ft: "fix_trailing need ?t (b_seen_eol b) = (t1, e1)"
    by (cases "fix_trailing need ?t (b_seen_eol b)")
  have t1: "t1 \<noteq> []"
    using fix_trailing_nonempty[OF t, of need "b_seen_eol b"] ft by simp
  have fl: "flush_lines t1 e1 = ?lines"
    using flush_lines_fix[OF t, of need "b_seen_eol b"] ft by simp
  from flush_inline[OF op nt tg' ft t1]
  obtain b' where b': "flush need b = Inr b'"
    "row_of (heap b') parent = split_siblings ?lines (row_of (heap b) parent)"
    unfolding fl by blast
  have row: "row_of (heap b) parent = (n_text (heap b parent), map (heap b) pre @ [heap b l])"
    using p(1) by (simp add: row_of_def)
  from split_siblings_group[OF p(2,3), of ?lines "n_text (heap b parent)" "map (heap b) pre"]
  obtain pt' q g where g: "split_siblings ?lines (n_text (heap b parent), map (heap b) pre @ [heap b l]) = (pt', q @ g)"
      "length q = length (map (heap b) pre)"
      "map n_text g = map Some (filter (\<lambda>x. \<not> blank x) (butlast ?lines) @ [last ?lines])"
      "\<forall>s\<in>set g. n_tag s = n_tag (heap b l) \<and> n_attrib s = n_attrib (heap b l)"
      "\<forall>s\<in>set (butlast g). \<exists>w. n_tail s = Some (nl # w) \<and> list_all is_ws w"
      "n_tail (last g) = None"
    by blast
  have ch: "map (heap b') (n_children (heap b' parent)) = q @ g"
    using b'(2) g(1) unfolding row by (simp add: row_of_def)
  have len: "length q + 1 = length (n_children (heap b parent))"
    using g(2) p(1) by simp
  have nonl: "\<forall>s\<in>set g. \<forall>x. n_text s = Some x \<longrightarrow> nl \<notin> set x"
  proof (intro ballI allI impI)
    fix s x assume s: "s \<in> set g" and x: "n_text s = Some x"
    have "n_text s \<in> set (map n_text g)" using s by simp
    then have "Some x \<in> Some ` set (filter (\<lambda>x. \<not> blank x) (butlast ?lines) @ [last ?lines])"
      unfolding g(3) x by simp
    then have "x \<in> set (butlast ?lines) \<or> x = last ?lines" by auto
    moreover have "?lines \<noteq> []" by (rule split_nl_nonempty)
    ultimately have "x \<in> set ?lines"
      by (auto dest: in_set_butlastD)
    then show "nl \<notin> set x" by (rule split_nl_no_newline)
  qed
  from b'(1) b'(2) ch len g(3) g(4) nonl g(5) g(6) show ?thesis by blast
qed

subsection \<open>The claim\<close>

text \<open>
  Claim C1, as amended.  A flush into an open inline element that has no text yet, with
  text in the buffer: the text without its trailing newlines is cut at every newline, and
  the lines are handled as \<^const>\<open>split_siblings\<close> says.  The element is replaced by the
  siblings \<open>g\<close>, the children \<open>p\<close> before it keep their number.  The siblings carry the lines
  before the last that are neither empty nor made of whitespace, then the last line; they
  have the tag and the attributes of the element, no newline in their text, and all but
  the last a tail that starts with a newline and holds whitespace only.  The text
  \<^verbatim>\<open>a\nb\<close> in a \<^verbatim>\<open>strong\<close> gives two \<^verbatim>\<open>strong\<close> elements; an empty first line goes to the
  parent's text.
\<close>

theorem inline_split:
  "(open_pos b parent rest \<and> \<not> b_tail b \<and> b_last b = Some l \<and> n_tag (heap b l) \<in> set inline_tags
      \<and> concat (b_data b) \<noteq> [] \<longrightarrow>
     (\<exists>b' p g. flush need b = Inr b'
        \<and> row_of (heap b') parent
            = split_siblings (split_nl (rstrip_nl (concat (b_data b)))) (row_of (heap b) parent)
        \<and> map (heap b') (n_children (heap b' parent)) = p @ g
        \<and> length p + 1 = length (n_children (heap b parent))
        \<and> map n_text g = map Some (filter (\<lambda>x. \<not> blank x) (butlast (split_nl (rstrip_nl (concat (b_data b)))))
                                    @ [last (split_nl (rstrip_nl (concat (b_data b))))])
        \<and> (\<forall>s\<in>set g. n_tag s = n_tag (heap b l) \<and> n_attrib s = n_attrib (heap b l))
        \<and> (\<forall>s\<in>set g. \<forall>x. n_text s = Some x \<longrightarrow> nl \<notin> set x)
        \<and> (\<forall>s\<in>set (butlast g). \<exists>w. n_tail s = Some (nl # w) \<and> list_all is_ws w)
        \<and> n_tail (last g) = None))
   \<and> build (page [Start ''strong'' None, Data (''a'' @ [nl] @ ''b''), End ''strong''])
       = Inr (Some (Element ''zim-tree'' Map.empty None None
           [Element ''strong'' Map.empty (Some ''a'') (Some [nl]) [],
            Element ''strong'' Map.empty (Some ''b'') None []]))
   \<and> build (page [Start ''strong'' None, Data ([nl] @ ''a'' @ [nl, nl] @ ''b''), End ''strong''])
       = Inr (Some (Element ''zim-tree'' Map.empty (Some [nl]) None
           [Element ''strong'' Map.empty (Some ''a'') (Some [nl, nl]) [],
            Element ''strong'' Map.empty (Some ''b'') None []]))"
proof -
  have b1: "build (page [Start ''strong'' None, Data (''a'' @ [nl] @ ''b''), End ''strong''])
       = Inr (Some (Element ''zim-tree'' Map.empty None None
           [Element ''strong'' Map.empty (Some ''a'') (Some [nl]) [],
            Element ''strong'' Map.empty (Some ''b'') None []]))"
    by (simp add: builder_defs)
  have b2: "build (page [Start ''strong'' None, Data ([nl] @ ''a'' @ [nl, nl] @ ''b''), End ''strong''])
       = Inr (Some (Element ''zim-tree'' Map.empty (Some [nl]) None
           [Element ''strong'' Map.empty (Some ''a'') (Some [nl, nl]) [],
            Element ''strong'' Map.empty (Some ''b'') None []]))"
    by (simp add: builder_defs)
  show ?thesis
    using flush_inline_group[of b parent rest l need] b1 b2 by blast
qed

text \<open>The theorem at a \<^verbatim>\<open>strong\<close> that is the first child of the page and is given three
  lines, the second of them empty.\<close>

theorem inline_split_witness:
  "(case flush 0 (state_after [Start ''zim-tree'' None, Start ''strong'' None,
                               Data (''a'' @ [nl, nl] @ ''b'')]) of
      Inl e \<Rightarrow> []
    | Inr b' \<Rightarrow> map (\<lambda>s. (n_tag s, n_text s, n_tail s)) (snd (row_of (heap b') 0)))
     = [(''strong'', Some ''a'', Some [nl, nl]), (''strong'', Some ''b'', None)]"
proof -
  let ?b = "state_after [Start ''zim-tree'' None, Start ''strong'' None, Data (''a'' @ [nl, nl] @ ''b'')]"
  have h: "open_pos ?b 0 [] \<and> \<not> b_tail ?b \<and> b_last ?b = Some 1 \<and> n_tag (heap ?b 1) \<in> set inline_tags
      \<and> concat (b_data ?b) \<noteq> []"
    by (simp add: open_pos_def builder_defs)
  have d: "concat (b_data ?b) = ''a'' @ [nl, nl] @ ''b''"
    by (simp add: builder_defs)
  have r: "row_of (heap ?b) 0 = (None, [new_node ''strong'' Map.empty])"
    by (simp add: row_of_def builder_defs)
  have s: "split_siblings (split_nl (rstrip_nl (''a'' @ [nl, nl] @ ''b''))) (None, [new_node ''strong'' Map.empty])
      = (None, [(new_node ''strong'' Map.empty)\<lparr>n_text := Some ''a'', n_tail := Some [nl, nl]\<rparr>,
                (new_node ''strong'' Map.empty)\<lparr>n_text := Some ''b''\<rparr>])"
    by (simp add: split_siblings_def split_step_def blank_def rstrip_nl_def nl_def new_node_def or_empty_def
        isspace_def is_ws_def)
  from inline_split[of ?b 0 "[]" 1 0, THEN conjunct1, THEN mp, OF h]
  obtain b' where b': "flush 0 ?b = Inr b'"
    "row_of (heap b') 0 = split_siblings (split_nl (rstrip_nl (concat (b_data ?b)))) (row_of (heap ?b) 0)"
    by blast
  from b'(2) have "row_of (heap b') 0
      = (None, [(new_node ''strong'' Map.empty)\<lparr>n_text := Some ''a'', n_tail := Some [nl, nl]\<rparr>,
                (new_node ''strong'' Map.empty)\<lparr>n_text := Some ''b''\<rparr>])"
    unfolding d r s .
  then show ?thesis
    unfolding b'(1) by (simp add: new_node_def)
qed

text \<open>
  Three lines none of which is empty, but the second holds a blank only: two elements are
  made, not three, and the second line ends up in the tail of the first.
\<close>

theorem inline_split_blank_line_counterexample:
  "build (page [Start ''strong'' None, Data (''a'' @ [nl] @ '' '' @ [nl] @ ''b''), End ''strong''])
     = Inr (Some (Element ''zim-tree'' Map.empty None None
         [Element ''strong'' Map.empty (Some ''a'') (Some ([nl] @ '' '' @ [nl])) [],
          Element ''strong'' Map.empty (Some ''b'') None []]))"
  by (simp add: builder_defs)

section \<open>Blank line before a heading\<close>

subsection \<open>Opening a heading with text in the buffer\<close>





subsection \<open>A heading behind a paragraph\<close>


subsection \<open>The claim\<close>




end
